theory Spec2Isabelle
  imports Main "HOL-Library.Sublist"
begin

section \<open>Python strings and errors\<close>

text \<open>
  A Python \<open>str\<close> is modelled as a \<^typ>\<open>string\<close>; a \<^typ>\<open>char\<close> stands for one code
  point in the range 0..255. An exception is a value of \<open>py_error\<close>, and a computation that
  may raise returns \<open>py_error + 'a\<close>.
\<close>

datatype py_error =
    KeyError | IndexError | ValueError | AttributeError | StopIteration
  | TypeError | RegexError | SqlError | PermissionError

definition startswith :: "string \<Rightarrow> string \<Rightarrow> bool" where
  "startswith s p = (take (length p) s = p)"

definition endswith :: "string \<Rightarrow> string \<Rightarrow> bool" where
  "endswith s p = (length p \<le> length s \<and> drop (length s - length p) s = p)"

definition removeprefix :: "string \<Rightarrow> string \<Rightarrow> string" where
  "removeprefix s p = (if startswith s p then drop (length p) s else s)"

definition removesuffix :: "string \<Rightarrow> string \<Rightarrow> string" where
  "removesuffix s p =
     (if p \<noteq> [] \<and> endswith s p then take (length s - length p) s else s)"

definition py_isspace :: "char \<Rightarrow> bool" where
  "py_isspace c = (let n = (of_char c :: nat) in
     (9 \<le> n \<and> n \<le> 13) \<or> (28 \<le> n \<and> n \<le> 32) \<or> n = 133 \<or> n = 160)"

definition strip :: "string \<Rightarrow> string" where
  "strip s = rev (dropWhile py_isspace (rev (dropWhile py_isspace s)))"

definition lower_char :: "char \<Rightarrow> char" where
  "lower_char c = (let n = (of_char c :: nat) in
     if (65 \<le> n \<and> n \<le> 90) \<or> (192 \<le> n \<and> n \<le> 222 \<and> n \<noteq> 215) then char_of (n + 32) else c)"

definition lower :: "string \<Rightarrow> string" where
  "lower s = map lower_char s"

fun join :: "string \<Rightarrow> string list \<Rightarrow> string" where
  "join sep [] = []"
| "join sep [x] = x"
| "join sep (x # y # ys) = x @ sep @ join sep (y # ys)"

fun split_char :: "char \<Rightarrow> string \<Rightarrow> string list" where
  "split_char d [] = [[]]"
| "split_char d (c # cs) =
     (if c = d then [] # split_char d cs
      else (case split_char d cs of
              [] \<Rightarrow> [[c]]
            | w # ws \<Rightarrow> (c # w) # ws))"

definition digit_char :: "nat \<Rightarrow> char" where
  "digit_char d = char_of (48 + d)"

function str_nat :: "nat \<Rightarrow> string" where
  "str_nat n = (if n < 10 then [digit_char n] else str_nat (n div 10) @ [digit_char (n mod 10)])"
  by pat_completeness auto
termination
  by (relation "measure id") auto

definition str_int :: "int \<Rightarrow> string" where
  "str_int i = (if i < 0 then CHR ''-'' # str_nat (nat (- i)) else str_nat (nat i))"

text \<open>
  \<open>Optional[str]\<close>: \<open>None\<close> or a string. \<open>truthy\<close> is Python's truth value of such a
  value, \<open>fmt\<close> what an f-string prints for it.
\<close>

type_synonym pstr = "string option"

definition truthy :: "pstr \<Rightarrow> bool" where
  "truthy x = (case x of None \<Rightarrow> False | Some s \<Rightarrow> s \<noteq> [])"

definition fmt :: "pstr \<Rightarrow> string" where
  "fmt x = (case x of None \<Rightarrow> ''None'' | Some s \<Rightarrow> s)"

section \<open>The REGEXP predicate (db.py, \<open>_regexp\<close>)\<close>

text \<open>
  The value handed to the SQL function is \<open>None\<close>, a \<open>str\<close>, or something else that
  \<open>str()\<close> turns into its display string. The two functions of Python's \<open>re\<close> module
  that \<open>_regexp\<close> calls are parameters: \<open>fullmatch pattern value\<close> and
  \<open>search ignorecase pattern value\<close>, each telling whether a match was found or raising.
\<close>

datatype 'v py_value = PyNone | PyStr string | PyOther 'v

definition regexp_try ::
  "(string \<Rightarrow> string \<Rightarrow> py_error + bool) \<Rightarrow> (bool \<Rightarrow> string \<Rightarrow> string \<Rightarrow> py_error + bool) \<Rightarrow>
   ('v \<Rightarrow> string) \<Rightarrow> string \<Rightarrow> 'v py_value \<Rightarrow> py_error + bool" where
  "regexp_try fullmatch search str_of pattern v =
     (case v of
        PyNone \<Rightarrow> Inr False
      | _ \<Rightarrow>
        (let val = (case v of PyStr s \<Rightarrow> s | PyOther x \<Rightarrow> str_of x | PyNone \<Rightarrow> []) in
         if startswith pattern ''.*'' \<and> endswith pattern ''.*'' then
           (let new_pattern = removesuffix (removeprefix pattern ''.*'') ''.*'' in
            if startswith new_pattern [CHR 0x27] \<and> endswith new_pattern [CHR 0x27] then
              fullmatch (removesuffix (removeprefix new_pattern [CHR 0x27]) [CHR 0x27]) val
            else search True new_pattern val)
         else if startswith pattern [CHR 0x27] \<and> endswith pattern [CHR 0x27] then
           fullmatch (removesuffix (removeprefix pattern [CHR 0x27]) [CHR 0x27]) val
         else search False pattern val))"

definition regexp ::
  "(string \<Rightarrow> string \<Rightarrow> py_error + bool) \<Rightarrow> (bool \<Rightarrow> string \<Rightarrow> string \<Rightarrow> py_error + bool) \<Rightarrow>
   ('v \<Rightarrow> string) \<Rightarrow> string \<Rightarrow> 'v py_value \<Rightarrow> bool" where
  "regexp fullmatch search str_of pattern v =
     (case regexp_try fullmatch search str_of pattern v of
        Inl e \<Rightarrow> False
      | Inr b \<Rightarrow> b)"

section \<open>Regular expressions as Python's \<open>re\<close> module matches them\<close>

text \<open>
  The patterns of the repository are terms of \<open>regex\<close>; \<open>rmatch\<close> is a backtracking
  matcher in continuation-passing style, trying the alternatives in the order in which
  Python's engine tries them: the left branch of \<open>|\<close> first, one more iteration of a
  greedy \<open>*\<close> before leaving it, leaving a lazy \<open>*?\<close> before one more iteration. A state
  is the position reached, the text still to read, and the spans of the groups set so far.
  \<open>Eos\<close> is \<open>$\<close>: the end of the text, or the place before a last line feed.
\<close>

type_synonym caps = "nat \<rightharpoonup> nat \<times> nat"
type_synonym mstate = "nat \<times> string \<times> caps"

datatype regex =
    Atom "char \<Rightarrow> bool"
  | Eps
  | Eos
  | Seq regex regex
  | Alt regex regex
  | Star regex
  | LazyStar regex
  | Group nat regex
  | Ahead regex

fun star_loop ::
  "nat \<Rightarrow> (mstate \<Rightarrow> (mstate \<Rightarrow> mstate option) \<Rightarrow> mstate option) \<Rightarrow>
   mstate \<Rightarrow> (mstate \<Rightarrow> mstate option) \<Rightarrow> mstate option" where
  "star_loop 0 body s k = k s"
| "star_loop (Suc n) body s k =
     (case body s (\<lambda>s'. if fst s < fst s' then star_loop n body s' k else k s') of
        Some r \<Rightarrow> Some r
      | None \<Rightarrow> k s)"

fun lazy_loop ::
  "nat \<Rightarrow> (mstate \<Rightarrow> (mstate \<Rightarrow> mstate option) \<Rightarrow> mstate option) \<Rightarrow>
   mstate \<Rightarrow> (mstate \<Rightarrow> mstate option) \<Rightarrow> mstate option" where
  "lazy_loop 0 body s k = k s"
| "lazy_loop (Suc n) body s k =
     (case k s of
        Some r \<Rightarrow> Some r
      | None \<Rightarrow> body s (\<lambda>s'. if fst s < fst s' then lazy_loop n body s' k else k s'))"

fun rmatch :: "regex \<Rightarrow> mstate \<Rightarrow> (mstate \<Rightarrow> mstate option) \<Rightarrow> mstate option" where
  "rmatch (Atom P) (p, cs, g) k =
     (case cs of [] \<Rightarrow> None | c # cs' \<Rightarrow> if P c then k (Suc p, cs', g) else None)"
| "rmatch Eps s k = k s"
| "rmatch Eos (p, cs, g) k = (if cs = [] \<or> cs = [CHR 0x0A] then k (p, cs, g) else None)"
| "rmatch (Seq a b) s k = rmatch a s (\<lambda>s'. rmatch b s' k)"
| "rmatch (Alt a b) s k = (case rmatch a s k of Some r \<Rightarrow> Some r | None \<Rightarrow> rmatch b s k)"
| "rmatch (Star a) (p, cs, g) k = star_loop (length cs) (\<lambda>s' k'. rmatch a s' k') (p, cs, g) k"
| "rmatch (LazyStar a) (p, cs, g) k = lazy_loop (length cs) (\<lambda>s' k'. rmatch a s' k') (p, cs, g) k"
| "rmatch (Group n a) (p, cs, g) k =
     rmatch a (p, cs, g) (\<lambda>(p', cs', g'). k (p', cs', g'(n \<mapsto> (p, p'))))"
| "rmatch (Ahead a) s k = (case rmatch a s Some of None \<Rightarrow> None | Some _ \<Rightarrow> k s)"

text \<open>
  The character classes \<open>\s\<close> and \<open>\w\<close> of a \<open>str\<close> pattern, on the code points
  0..255.
\<close>

definition py_isword :: "char \<Rightarrow> bool" where
  "py_isword c = (let n = (of_char c :: nat) in
     (48 \<le> n \<and> n \<le> 57) \<or> (65 \<le> n \<and> n \<le> 90) \<or> n = 95 \<or> (97 \<le> n \<and> n \<le> 122) \<or>
     n = 170 \<or> n = 178 \<or> n = 179 \<or> n = 181 \<or> n = 185 \<or> n = 186 \<or>
     (188 \<le> n \<and> n \<le> 190) \<or> (192 \<le> n \<and> n \<le> 214) \<or> (216 \<le> n \<and> n \<le> 246) \<or> 248 \<le> n)"

definition is_ascii_letter :: "char \<Rightarrow> bool" where
  "is_ascii_letter c = (let n = (of_char c :: nat) in
     (65 \<le> n \<and> n \<le> 90) \<or> (97 \<le> n \<and> n \<le> 122))"

definition Ch :: "char \<Rightarrow> regex" where "Ch c = Atom (\<lambda>x. x = c)"
definition OneOf :: "string \<Rightarrow> regex" where "OneOf cs = Atom (\<lambda>x. x \<in> set cs)"
definition Plus :: "regex \<Rightarrow> regex" where "Plus r = Seq r (Star r)"
definition Opt :: "regex \<Rightarrow> regex" where "Opt r = Alt r Eps"
definition Space :: regex where "Space = Atom py_isspace"
definition Word :: regex where "Word = Atom py_isword"
definition WordDot :: regex where "WordDot = Atom (\<lambda>x. py_isword x \<or> x = CHR ''.'')"
definition Quoted :: regex where
  "Quoted = Seq (Ch (CHR 0x27)) (Seq (Star (Atom (\<lambda>x. x \<noteq> CHR 0x27))) (Ch (CHR 0x27)))"

fun seqs :: "regex list \<Rightarrow> regex" where
  "seqs [] = Eps"
| "seqs [r] = r"
| "seqs (r # rs) = Seq r (seqs rs)"

text \<open>
  \<open>_table_pattern\<close>:
  \<^verbatim>\<open>(?:([a-zA-Z_]+)(?:\[((?:\w*\;?)*)])?(?:\{(\w+)})?([:=])\s?)?\<close>
  \<^verbatim>\<open>('[^']*'|(?:[\w\.]+\s?)+)\<close>
  \<^verbatim>\<open>((?:\s?[|&]\s?{\w*}[:=]\s?(?:'[^']*'|(?:\w+\s?)+))*(?:\s?[|&]\s?|$))\<close>
\<close>

definition table_pattern :: regex where
  "table_pattern = seqs [
     Opt (seqs [
       Group 1 (Plus (Atom (\<lambda>x. is_ascii_letter x \<or> x = CHR ''_''))),
       Opt (seqs [Ch CHR ''['', Group 2 (Star (Seq (Star Word) (Opt (Ch CHR '';'')))), Ch CHR '']'']),
       Opt (seqs [Ch CHR ''{'', Group 3 (Plus Word), Ch CHR ''}'']),
       Group 4 (OneOf '':=''),
       Opt Space]),
     Group 5 (Alt Quoted (Plus (Seq (Plus WordDot) (Opt Space)))),
     Group 6 (Seq
       (Star (seqs [Opt Space, OneOf ''|&'', Opt Space, Ch CHR ''{'', Star Word, Ch CHR ''}'',
                    OneOf '':='', Opt Space,
                    Alt Quoted (Plus (Seq (Plus Word) (Opt Space)))]))
       (Alt (seqs [Opt Space, OneOf ''|&'', Opt Space]) Eos))]"

text \<open>
  \<open>_search_term_pattern\<close>:
  \<^verbatim>\<open>\s?([&|])\s?\{(\w*)}([:=])\s?((?:[\w\.]+\s?|'[^']*')*)|\s?([|&])\s?\<close>
\<close>

definition search_term_pattern :: regex where
  "search_term_pattern = Alt
     (seqs [Opt Space, Group 1 (OneOf ''&|''), Opt Space, Ch CHR ''{'', Group 2 (Star Word),
            Ch CHR ''}'', Group 3 (OneOf '':=''), Opt Space,
            Group 4 (Star (Alt (Seq (Plus WordDot) (Opt Space)) Quoted))])
     (seqs [Opt Space, Group 5 (OneOf ''|&''), Opt Space])"

text \<open>
  A match object: where the match starts and ends in the text, and the spans of its
  groups. \<open>search_from\<close> is \<open>pattern.search\<close>: the match at the leftmost position
  that has one. \<open>finditer\<close> lists the matches from left to right, each search starting
  where the last match ended. No pattern of the repository matches the empty string;
  after an empty match the model moves on by one character.
\<close>

record re_match =
  m_start :: nat
  m_end :: nat
  m_caps :: caps

fun search_from :: "regex \<Rightarrow> nat \<Rightarrow> string \<Rightarrow> re_match option" where
  "search_from r p [] =
     (case rmatch r (p, [], Map.empty) Some of
        Some (e, rest, g) \<Rightarrow> Some \<lparr>m_start = p, m_end = e, m_caps = g\<rparr>
      | None \<Rightarrow> None)"
| "search_from r p (c # cs) =
     (case rmatch r (p, c # cs, Map.empty) Some of
        Some (e, rest, g) \<Rightarrow> Some \<lparr>m_start = p, m_end = e, m_caps = g\<rparr>
      | None \<Rightarrow> search_from r (Suc p) cs)"

fun finditer_from :: "nat \<Rightarrow> regex \<Rightarrow> nat \<Rightarrow> string \<Rightarrow> re_match list" where
  "finditer_from 0 r p cs = []"
| "finditer_from (Suc fuel) r p cs =
     (case search_from r p cs of
        None \<Rightarrow> []
      | Some m \<Rightarrow>
          (if m_start m < m_end m
           then m # finditer_from fuel r (m_end m) (drop (m_end m - p) cs)
           else if m_end m - p < length cs
           then m # finditer_from fuel r (Suc (m_end m)) (drop (Suc (m_end m - p)) cs)
           else [m]))"

definition finditer :: "regex \<Rightarrow> string \<Rightarrow> re_match list" where
  "finditer r s = finditer_from (Suc (length s)) r 0 s"

definition match_re :: "regex \<Rightarrow> string \<Rightarrow> re_match option" where
  "match_re r s =
     (case rmatch r (0, s, Map.empty) Some of
        Some (e, rest, g) \<Rightarrow> Some \<lparr>m_start = 0, m_end = e, m_caps = g\<rparr>
      | None \<Rightarrow> None)"

definition slice :: "string \<Rightarrow> nat \<Rightarrow> nat \<Rightarrow> string" where
  "slice s a b = take (b - a) (drop a s)"

definition group0 :: "string \<Rightarrow> re_match \<Rightarrow> string" where
  "group0 s m = slice s (m_start m) (m_end m)"

definition groups :: "nat \<Rightarrow> string \<Rightarrow> re_match \<Rightarrow> pstr list" where
  "groups n s m = map (\<lambda>i. map_option (\<lambda>(a, b). slice s a b) (m_caps m i)) [1..<Suc n]"

section \<open>The parser (search\_engine.py)\<close>

text \<open>
  \<open>main_groups\<close> is \<open>groups[:-1]\<close> of a match of the table pattern: group, return
  spec, column, operator, value. A \<open>search_term\<close> is \<open>match.groups()\<close> of the search-term
  pattern: combinator, column, operator, value, and the bare combinator of the second
  alternative.
\<close>

type_synonym main_groups = "pstr \<times> pstr \<times> pstr \<times> pstr \<times> pstr"
type_synonym search_term = "pstr \<times> pstr \<times> pstr \<times> pstr \<times> pstr"
type_synonym clause = "main_groups \<times> search_term list"

fun consumed_loop :: "re_match list \<Rightarrow> nat \<Rightarrow> nat option" where
  "consumed_loop [] last_end = Some last_end"
| "consumed_loop (m # ms) last_end =
     (if m_start m \<noteq> last_end then None else consumed_loop ms (m_end m))"

definition check_consumed_string :: "string \<Rightarrow> regex \<Rightarrow> string list \<times> bool" where
  "check_consumed_string input_string rejects =
     (let matches = finditer rejects input_string;
          all_matches = map (group0 input_string) matches
      in if matches = [] then ([], False)
         else (case consumed_loop matches 0 of
                 None \<Rightarrow> (all_matches, False)
               | Some last_end \<Rightarrow> (all_matches, last_end = length input_string)))"

definition term_groups :: "string \<Rightarrow> re_match \<Rightarrow> search_term" where
  "term_groups s m =
     (let g = (\<lambda>i. map_option (\<lambda>(a, b). slice s a b) (m_caps m i))
      in (g 1, g 2, g 3, g 4, g 5))"

definition check_consumed_substring :: "string \<Rightarrow> regex \<Rightarrow> search_term list \<times> bool" where
  "check_consumed_substring input_string rejects =
     (let matches = finditer rejects input_string;
          all_matches = map (term_groups input_string) matches
      in if matches = [] \<and> input_string = [] then ([], True)
         else if matches = [] then ([], False)
         else (case consumed_loop matches 0 of
                 None \<Rightarrow> (all_matches, False)
               | Some last_end \<Rightarrow> (all_matches, last_end = length input_string)))"

text \<open>
  The loop of \<open>_parse_user_input\<close> over the matched texts; \<open>parsed_results\<close> is the list
  built so far. The result \<open>None\<close> is the \<open>return None\<close> of the source. The last group of
  the table pattern takes part in every match, so \<open>sub_string\<close> is a string; \<open>len(None)\<close>
  would raise, and the model keeps that branch as an error.
\<close>

fun parse_loop :: "string list \<Rightarrow> clause list \<Rightarrow> py_error + clause list option" where
  "parse_loop [] parsed_results = Inr (Some parsed_results)"
| "parse_loop (main_match # rest) parsed_results =
     (case match_re table_pattern main_match of
        None \<Rightarrow> parse_loop rest parsed_results
      | Some m \<Rightarrow>
          (let g = (\<lambda>i. map_option (\<lambda>(a, b). slice main_match a b) (m_caps m i))
           in case g 6 of
                None \<Rightarrow> Inl TypeError
              | Some sub_string \<Rightarrow>
                  if \<not> (length sub_string \<le> 3 \<and> CHR ''|'' \<in> set sub_string) then
                    (case check_consumed_substring sub_string search_term_pattern of
                       (search_terms, sub_string_consumed) \<Rightarrow>
                         if \<not> sub_string_consumed then Inr None
                         else parse_loop rest
                                (parsed_results @ [((g 1, g 2, g 3, g 4, g 5), search_terms)]))
                  else parse_loop rest (parsed_results @ [((g 1, g 2, g 3, g 4, g 5), [])])))"

definition parse_user_input :: "string \<Rightarrow> py_error + clause list option" where
  "parse_user_input user_input =
     (case check_consumed_string user_input table_pattern of
        (main_matches, entire_string_consumed) \<Rightarrow>
          if \<not> entire_string_consumed then Inr None
          else parse_loop main_matches [])"

section \<open>The query compiler (search\_engine.py)\<close>

definition ebind :: "py_error + 'a \<Rightarrow> ('a \<Rightarrow> py_error + 'b) \<Rightarrow> py_error + 'b" where
  "ebind x f = (case x of Inl e \<Rightarrow> Inl e | Inr v \<Rightarrow> f v)"

text \<open>
  A \<open>dict\<close> keeps its keys in insertion order; storing under a key that is present
  replaces the value where the key stands.
\<close>

fun dict_setitem :: "'k \<Rightarrow> 'v \<Rightarrow> ('k \<times> 'v) list \<Rightarrow> ('k \<times> 'v) list" where
  "dict_setitem k v [] = [(k, v)]"
| "dict_setitem k v ((k', v') # d) =
     (if k' = k then (k', v) # d else (k', v') # dict_setitem k v d)"

definition dict_from :: "('k \<times> 'v) list \<Rightarrow> ('k \<times> 'v) list" where
  "dict_from items = foldl (\<lambda>d (k, v). dict_setitem k v d) [] items"

definition map_items :: "(string \<times> string list) list" where
  "map_items =
     [(''user'', [''Persons'', ''CasePeople'']),
      (''case'', [''Cases'']),
      (''docu'', [''Documents''])]"

definition map_get :: "pstr \<Rightarrow> string list option" where
  "map_get k = (case k of None \<Rightarrow> None | Some g \<Rightarrow> map_of map_items g)"

definition map_getitem :: "pstr \<Rightarrow> py_error + string list" where
  "map_getitem k = (case map_get k of None \<Rightarrow> Inl KeyError | Some t \<Rightarrow> Inr t)"

definition full_map_items :: "(string list \<times> string list list) list" where
  "full_map_items =
     [([''Persons'', ''CasePeople''],
       [[''last_name'', ''first_name'', ''address'', ''birth_date'', ''contact_info'', ''gender'',
         ''description'', ''notes'', ''can_be_lawyer''],
        [''self_represented'', ''has_external_lawyer'', ''side'']]),
      ([''Cases''], [[''name'', ''description'', ''notes'']]),
      ([''Documents''], [[''name'', ''description'', ''notes'', ''path'']])]"

definition full_map_getitem :: "string list \<Rightarrow> py_error + string list list" where
  "full_map_getitem t = (case map_of full_map_items t of None \<Rightarrow> Inl KeyError | Some c \<Rightarrow> Inr c)"

definition returns_map_items :: "(string list \<times> string list) list" where
  "returns_map_items =
     [([''Persons'', ''CasePeople''], [''first_name'', ''last_name'', ''can_be_lawyer'']),
      ([''Cases''], [''name'']),
      ([''Documents''], [''name''])]"

definition returns_map_get :: "string list option \<Rightarrow> string list option" where
  "returns_map_get t = (case t of None \<Rightarrow> None | Some k \<Rightarrow> map_of returns_map_items k)"

definition join_table_map_items :: "(string \<times> (string \<times> string) list) list" where
  "join_table_map_items =
     [(''Cases'',
       [(''Persons'', ''INNER JOIN CasePeople ON Cases.nb = CasePeople.case_nb INNER JOIN Persons ON CasePeople.person_nb = Persons.nb''),
        (''Documents'', ''INNER JOIN CaseDocuments ON Cases.nb = CaseDocuments.case_nb INNER JOIN Documents ON CaseDocuments.document_nb = Documents.nb'')]),
      (''Persons'',
       [(''Cases'', ''INNER JOIN Cases ON CasePeople.case_nb = Cases.nb''),
        (''Documents'', ''INNER JOIN CaseDocuments ON CasePeople.case_nb = CaseDocuments.case_nb JOIN Documents ON CaseDocuments.document_nb = Documents.nb'')]),
      (''Documents'',
       [(''Cases'', ''INNER JOIN CaseDocuments ON Documents.nb = CaseDocuments.document_nb INNER JOIN Cases ON CaseDocuments.case_nb = Cases.nb''),
        (''Persons'', ''INNER JOIN CaseDocuments ON Documents.nb = CaseDocuments.document_nb INNER JOIN CasePeople ON CaseDocuments.case_nb = CasePeople.case_nb JOIN Persons ON CasePeople.person_nb = Persons.nb'')])]"

definition join_table_map_getitem :: "string \<Rightarrow> string \<Rightarrow> py_error + string" where
  "join_table_map_getitem query_table join_table =
     (case map_of join_table_map_items query_table of
        None \<Rightarrow> Inl KeyError
      | Some d \<Rightarrow> (case map_of d join_table of None \<Rightarrow> Inl KeyError | Some j \<Rightarrow> Inr j))"

text \<open>
  A compiled query: the tables touched, the SQL text, the positional parameters and one
  return spec for each table.
\<close>

type_synonym compiled = "string list \<times> string \<times> pstr list \<times> string list option list"

text \<open>
  The table that owns a column: the loop over \<open>zip(table_names, table_columns)\<close> has no
  \<open>break\<close>, so the last table that has the column wins, and the empty name stays when
  none has it.
\<close>

fun find_table :: "(string \<times> string list) list \<Rightarrow> pstr \<Rightarrow> string \<Rightarrow> string" where
  "find_table [] column table = table"
| "find_table ((curr_table, columns) # rest) column table =
     (if (case column of None \<Rightarrow> False | Some c \<Rightarrow> c \<in> set columns)
      then find_table rest column curr_table
      else find_table rest column table)"

definition left_join :: "string \<Rightarrow> string \<Rightarrow> string" where
  "left_join main_table k =
     '' LEFT JOIN '' @ k @ '' ON '' @ main_table @ ''.nb = '' @ k @ ''.'' @
     removesuffix (lower main_table) ''s'' @ ''_nb''"

subsection \<open>\<open>_generate_query\<close>: a clause with an explicit column\<close>

fun query_terms ::
  "(string \<times> string list) list \<Rightarrow> search_term list \<Rightarrow> py_error + string list \<times> pstr list" where
  "query_terms zc [] = Inr ([], [])"
| "query_terms zc ((combinator, column, search_bool, v, flag) # rest) =
     (if truthy flag then Inr ([], [])
      else (case v of
              None \<Rightarrow> Inl AttributeError
            | Some sv \<Rightarrow>
                (let search_value = strip sv;
                     table = find_table zc column [];
                     condition = (if search_bool = Some '':''
                                  then table @ ''.'' @ fmt column @ '' REGEXP ?''
                                  else table @ ''.'' @ fmt column @ '' = ?'');
                     c = (if combinator = Some ''&'' then ''AND '' @ condition
                          else if combinator = Some ''|'' then ''OR '' @ condition
                          else condition)
                 in ebind (query_terms zc rest)
                      (\<lambda>(conditions, params). Inr (c # conditions, Some search_value # params)))))"

definition generate_query :: "main_groups \<Rightarrow> search_term list \<Rightarrow> py_error + string \<times> pstr list" where
  "generate_query input_tuple search_terms =
     (case input_tuple of (m0, m1, initial_column, initial_bool, m4) \<Rightarrow>
      ebind (map_getitem m0) (\<lambda>table_names.
      ebind (full_map_getitem table_names) (\<lambda>table_columns.
      (case m4 of
         None \<Rightarrow> Inl AttributeError
       | Some v \<Rightarrow>
           (case table_names of
              [] \<Rightarrow> Inl IndexError
            | t0 # ts \<Rightarrow>
                (let initial_value = strip v;
                     from_clause = '' FROM '' @ t0 @ concat (map (left_join t0) ts);
                     query = ''SELECT '' @ t0 @ ''.nb'' @ from_clause @ '' WHERE '';
                     zc = zip table_names table_columns;
                     table = find_table zc initial_column [];
                     first = (if initial_bool = Some '':''
                              then table @ ''.'' @ fmt initial_column @ '' REGEXP ?''
                              else table @ ''.'' @ fmt initial_column @ '' = ?'')
                 in ebind (query_terms zc search_terms)
                      (\<lambda>(conditions, params).
                         Inr (query @ join '' '' (first # conditions),
                              Some initial_value # params))))))))"

subsection \<open>\<open>_generate_full_query\<close>: a vague clause\<close>

text \<open>
  The two loops that build the \<open>CASE\<close> arms; \<open>case_index\<close> runs on from one table to
  the next. \<open>length\<close> is the number of columns of all the tables.
\<close>

fun case_columns :: "string \<Rightarrow> string list \<Rightarrow> int \<Rightarrow> int \<Rightarrow> string list \<times> int" where
  "case_columns table [] len case_index = ([], case_index)"
| "case_columns table (column # rest) len case_index =
     (case case_columns table rest len (case_index + 1) of
        (conds, last_index) \<Rightarrow>
          ((''WHEN '' @ table @ ''.'' @ column @ '' = ? THEN '' @ str_int (len + 2 - case_index)) #
           (''WHEN '' @ table @ ''.'' @ column @ '' REGEXP ? THEN '' @ str_int (len - case_index)) #
           conds, last_index))"

fun case_tables :: "(string \<times> string list) list \<Rightarrow> int \<Rightarrow> int \<Rightarrow> string list" where
  "case_tables [] len case_index = []"
| "case_tables ((table, table_columns) # rest) len case_index =
     (case case_columns table table_columns len case_index of
        (conds, next_index) \<Rightarrow> conds @ case_tables rest len next_index)"

type_synonym extra_terms = "(pstr \<times> string \<times> bool \<times> pstr) list"

definition additional_condition ::
  "(string \<times> string list) list \<Rightarrow> pstr \<times> string \<times> bool \<times> pstr \<Rightarrow> string" where
  "additional_condition tables_and_columns item =
     (case item of (column, logic, operator, v) \<Rightarrow>
        (let table = find_table tables_and_columns column []
         in if operator then logic @ '' '' @ table @ ''.'' @ fmt column @ '' REGEXP ?''
            else logic @ '' '' @ table @ ''.'' @ fmt column @ '' = ?''))"

definition generate_full_query ::
  "(string \<times> string list) list \<Rightarrow> pstr \<Rightarrow> extra_terms \<Rightarrow> py_error + string \<times> pstr list" where
  "generate_full_query tables_and_columns vague_search_term additional_search_terms =
     (case tables_and_columns of
        [] \<Rightarrow> Inl StopIteration
      | (main_table, cols0) # others \<Rightarrow>
          (let from_clause = ''FROM '' @ main_table @
                 (if length tables_and_columns > 1
                  then concat (map (\<lambda>(k, cols). if k \<noteq> main_table then left_join main_table k else [])
                                   tables_and_columns)
                  else []);
               select_clause = ''SELECT '' @ main_table @ ''.nb, NULL AS relevance, CASE'';
               len = int (sum_list (map (\<lambda>(k, cols). length cols) tables_and_columns));
               case_conditions = case_tables tables_and_columns len 0;
               case_statement = join '' '' case_conditions @ '' ELSE 0 END AS relevance'';
               where_clause_conditions =
                 concat (map (\<lambda>(table, cols). map (\<lambda>column. table @ ''.'' @ column @ '' REGEXP ?'') cols)
                             tables_and_columns);
               where_clause = join '' OR '' where_clause_conditions;
               additional_conditions =
                 map (additional_condition tables_and_columns) additional_search_terms;
               additional_search_termini =
                 map (\<lambda>(column, logic, operator, v). v) additional_search_terms;
               additional_where_clause = join '' '' additional_conditions;
               where_clause' = (if additional_where_clause \<noteq> []
                                then ''('' @ where_clause @ '') '' @ additional_where_clause
                                else where_clause);
               query = select_clause @ '' '' @ case_statement @ '' '' @ from_clause @ '' WHERE '' @
                       where_clause' @ '' ORDER BY relevance DESC''
           in Inr (query,
                   replicate (nat ((len * 2) + len)) (Some (''.*'' @ fmt vague_search_term @ ''.*'')) @
                   additional_search_termini)))"

text \<open>
  The dict comprehension that turns the chained sub-terms of a clause into the
  \<open>additional_search_terms\<close> of a vague query: keyed by column, so a second sub-term on
  the same column replaces the first.
\<close>

definition normalized_extra :: "search_term list \<Rightarrow> extra_terms" where
  "normalized_extra search_terms =
     dict_from (map (\<lambda>(op, k, reg, v, flag). (k, (if op = Some ''|'' then ''OR'' else ''AND'', reg = Some '':'', v)))
                    (filter (\<lambda>(op, k, reg, v, flag). \<not> truthy flag) search_terms))"

subsection \<open>\<open>_join_query\<close>: joining a second group onto a compiled query\<close>

text \<open>
  The patterns of \<open>_join_query\<close>, all with \<open>re.IGNORECASE\<close>; \<open>ci\<close> is a literal
  matched without regard to case, \<open>Any\<close> the dot under \<open>re.DOTALL\<close>:
  \<^verbatim>\<open>FROM (\w+)\<close>, \<^verbatim>\<open>SELECT (.+?) FROM\<close>,
  \<^verbatim>\<open>, NULL AS relevance, CASE\<close>, \<^verbatim>\<open>WHERE\<close> and
  \<^verbatim>\<open>WHERE (.+?)(?= ORDER BY relevance|$)\<close>.
\<close>

definition ci :: "string \<Rightarrow> regex" where
  "ci s = seqs (map (\<lambda>c. Atom (\<lambda>x. lower_char x = lower_char c)) s)"

definition Any :: regex where "Any = Atom (\<lambda>x. True)"

definition from_pattern :: regex where
  "from_pattern = Seq (ci ''FROM '') (Group 1 (Plus Word))"

definition select_pattern :: regex where
  "select_pattern = seqs [ci ''SELECT '', Group 1 (Seq Any (LazyStar Any)), ci '' FROM'']"

definition relevance_pattern :: regex where
  "relevance_pattern = ci '', NULL AS relevance, CASE''"

definition where_pattern :: regex where
  "where_pattern = ci ''WHERE''"

definition where_sub_pattern :: regex where
  "where_sub_pattern =
     seqs [ci ''WHERE '', Group 1 (Seq Any (LazyStar Any)),
           Ahead (Alt (ci '' ORDER BY relevance'') Eos)]"

definition re_search :: "regex \<Rightarrow> string \<Rightarrow> re_match option" where
  "re_search r s = search_from r 0 s"

definition group_text :: "string \<Rightarrow> re_match \<Rightarrow> nat \<Rightarrow> pstr" where
  "group_text s m i = map_option (\<lambda>(a, b). slice s a b) (m_caps m i)"

fun replace_first :: "string \<Rightarrow> string \<Rightarrow> string \<Rightarrow> string" where
  "replace_first [] old new = (if old = [] then new else [])"
| "replace_first (c # cs) old new =
     (if startswith (c # cs) old then new @ drop (length old) (c # cs)
      else c # replace_first cs old new)"

fun sub_build :: "string \<Rightarrow> (re_match \<Rightarrow> string) \<Rightarrow> nat \<Rightarrow> re_match list \<Rightarrow> string" where
  "sub_build s repl pos [] = drop pos s"
| "sub_build s repl pos (m # ms) =
     slice s pos (m_start m) @ repl m @ sub_build s repl (m_end m) ms"

definition re_sub :: "regex \<Rightarrow> (re_match \<Rightarrow> string) \<Rightarrow> string \<Rightarrow> string" where
  "re_sub r repl s = sub_build s repl 0 (finditer r s)"

text \<open>
  \<open>re.sub\<close> reads its replacement text as a template, in which a backslash starts an
  escape. The conditions joined into the template here are built from table names and
  from columns that the parser matched with \<open>\w\<close>, so they hold no backslash; the model
  ends with an error if one occurs, and does not follow Python's escape table.
\<close>

definition join_query :: "string \<Rightarrow> string \<Rightarrow> string list \<Rightarrow> py_error + string" where
  "join_query query join_table join_parameters =
     (case re_search from_pattern query of
        None \<Rightarrow> Inl ValueError
      | Some fm \<Rightarrow>
     (case group_text query fm 1 of
        None \<Rightarrow> Inl TypeError
      | Some query_table \<Rightarrow>
     (case re_search select_pattern query of
        None \<Rightarrow> Inl ValueError
      | Some sm \<Rightarrow>
     (case group_text query sm 1 of
        None \<Rightarrow> Inl TypeError
      | Some select_clause \<Rightarrow>
          (let new_select_clause =
                 (case re_search relevance_pattern select_clause of
                    Some rm \<Rightarrow> take (m_start rm) select_clause @ '', '' @ join_table @ ''.nb'' @
                               drop (m_start rm) select_clause
                  | None \<Rightarrow> select_clause @ '', '' @ join_table @ ''.nb'');
               query1 = replace_first query select_clause new_select_clause
           in ebind (join_table_map_getitem query_table join_table) (\<lambda>j.
                (let query2 =
                       (case re_search where_pattern query1 of
                          Some wm \<Rightarrow> take (m_start wm) query1 @ j @ '' '' @ drop (m_start wm) query1
                        | None \<Rightarrow> query1 @ '' '' @ j);
                     joined = join '' '' join_parameters
                 in if CHR 0x5C \<in> set joined then Inl RegexError
                    else Inr (re_sub where_sub_pattern
                                (\<lambda>m. ''WHERE ('' @ (case group_text query2 m 1 of None \<Rightarrow> [] | Some g \<Rightarrow> g) @
                                      '') '' @ joined)
                                query2))))))))"

subsection \<open>\<open>get_sql_query_from_user_input\<close>\<close>

definition select_everything :: "compiled list" where
  "select_everything =
     [([''Persons'', ''Cases'', ''Documents''],
       ''SELECT Persons.nb, Cases.nb, Documents.nb FROM Persons FULL OUTER JOIN Cases FULL OUTER JOIN Documents'',
       [],
       [map_of returns_map_items [''Persons'', ''CasePeople''],
        map_of returns_map_items [''Cases''],
        map_of returns_map_items [''Documents'']])]"

definition no_match :: "compiled list" where
  "no_match = [([''Persons'', ''Cases'', ''Documents''], [], [], [Some [], Some [], Some []])]"

definition clause_query :: "string list \<Rightarrow> clause \<Rightarrow> extra_terms \<Rightarrow> py_error + string \<times> pstr list" where
  "clause_query table cl extra =
     (case cl of ((m0, m1, m2, m3, m4), search_terms) \<Rightarrow>
        if m2 = None
        then ebind (full_map_getitem table) (\<lambda>cols.
               generate_full_query (dict_from (zip table cols)) m4 extra)
        else generate_query (m0, m1, m2, m3, m4) search_terms)"

text \<open>The loop over \<open>self._map.values()\<close>, taken when the group is not a key of \<open>_map\<close>.\<close>

fun fan_out ::
  "string list list \<Rightarrow> clause \<Rightarrow> extra_terms \<Rightarrow> compiled list \<Rightarrow> py_error + compiled list" where
  "fan_out [] cl extra returns = Inr returns"
| "fan_out (table # rest) cl extra returns =
     (case cl of ((m0, m1, m2, m3, m4), search_terms) \<Rightarrow>
        ebind (if truthy m1
               then (case m0 of
                       None \<Rightarrow> Inl AttributeError
                     | Some g \<Rightarrow> Inr (Some (split_char CHR '';'' g)))
               else Inr (returns_map_get (Some table))) (\<lambda>ret_val.
        ebind (clause_query table cl extra) (\<lambda>(sql, params).
        (case table of
           [] \<Rightarrow> Inl IndexError
         | t0 # ts \<Rightarrow> fan_out rest cl extra (returns @ [([t0], sql, params, [ret_val])])))))"

text \<open>
  The conditions and values that a clause adds to the query of the clause before it,
  when that one ended in a bare \<open>&\<close>.
\<close>

fun concat_terms ::
  "(string \<times> string list) list \<Rightarrow> search_term list \<Rightarrow> string list \<times> pstr list" where
  "concat_terms zc [] = ([], [])"
| "concat_terms zc ((operator, column, regex_flag, v, table_flag) # rest) =
     (case concat_terms zc rest of
        (where_lst, value_lst) \<Rightarrow>
          if \<not> truthy table_flag then
            (let found_table = find_table zc column [];
                 w = found_table @ ''.'' @ fmt column @
                     (if truthy regex_flag then '' REGEXP ?'' else '' = ?'')
             in (((if operator = Some ''|'' then ''OR '' else ''AND '') @ w) # where_lst,
                 v # value_lst))
          else (where_lst, value_lst))"

definition known_group ::
  "string list \<Rightarrow> clause \<Rightarrow> extra_terms \<Rightarrow> bool \<Rightarrow> compiled list \<Rightarrow>
   py_error + compiled list \<times> bool" where
  "known_group table cl extra concatenate_tables returns =
     (case cl of ((m0, m1, m2, m3, m4), search_terms) \<Rightarrow>
        (let ret_val = (case m1 of
                          Some r \<Rightarrow> Some (split_char CHR '';'' r)
                        | None \<Rightarrow> returns_map_get (Some table))
         in ebind (clause_query table cl extra) (\<lambda>(sql, params).
            if concatenate_tables then
              ebind (full_map_getitem table) (\<lambda>cols.
                (case concat_terms (zip table cols) ((Some ''&'', m2, m3, m4, None) # search_terms) of
                   (where_tup, value_tup) \<Rightarrow>
                     (case rev returns of
                        [] \<Rightarrow> Inl IndexError
                      | (tabs, q, ps, rets) # earlier \<Rightarrow>
                          (case table of
                             [] \<Rightarrow> Inl IndexError
                           | t0 # ts \<Rightarrow>
                               ebind (join_query q t0 where_tup) (\<lambda>joined.
                                 Inr (rev earlier @
                                      [(tabs @ [t0], joined, ps @ value_tup,
                                        rets @ [Some (case returns_map_get (Some table) of
                                                        None \<Rightarrow> []
                                                      | Some r \<Rightarrow> r)])],
                                      False))))))
            else (case table of
                    [] \<Rightarrow> Inl IndexError
                  | t0 # ts \<Rightarrow> Inr (returns @ [([t0], sql, params, [ret_val])], False)))))"

fun compile_loop :: "clause list \<Rightarrow> bool \<Rightarrow> compiled list \<Rightarrow> py_error + compiled list" where
  "compile_loop [] concatenate_tables returns = Inr returns"
| "compile_loop (cl # rest) concatenate_tables returns =
     (case cl of ((m0, m1, m2, m3, m4), search_terms) \<Rightarrow>
        (let table = map_get m0;
             last_term = (if length search_terms > 0
                          then (case last search_terms of (op, k, reg, v, flag) \<Rightarrow> flag)
                          else None);
             extra = normalized_extra search_terms
         in ebind (case table of
                     None \<Rightarrow> ebind (fan_out (map snd map_items) cl extra returns)
                                (\<lambda>returns'. Inr (returns', concatenate_tables))
                   | Some t \<Rightarrow> known_group t cl extra concatenate_tables returns)
              (\<lambda>(returns', concatenate_tables').
                 compile_loop rest (concatenate_tables' \<or> last_term = Some ''&'') returns')))"

definition get_sql_query_from_user_input :: "string \<Rightarrow> py_error + compiled list" where
  "get_sql_query_from_user_input user_input =
     ebind (parse_user_input user_input) (\<lambda>parsed_input.
       (case parsed_input of
          None \<Rightarrow> if user_input = [] then Inr select_everything else Inr no_match
        | Some clauses \<Rightarrow> compile_loop clauses False []))"

section \<open>The change log and the notifier (db.py, main\_gui.py)\<close>

text \<open>
  The patterns of \<open>_get_affected_tables\<close>, with \<open>re.IGNORECASE\<close>:
  \<^verbatim>\<open>INSERT\s+INTO\s+([^\s(]+)\<close>, \<^verbatim>\<open>UPDATE\s+(\S+)\<close> and
  \<^verbatim>\<open>DELETE\s+FROM\s+(\S+)\<close>.
\<close>

definition NonSpace :: regex where "NonSpace = Atom (\<lambda>x. \<not> py_isspace x)"

definition insert_pattern :: regex where
  "insert_pattern =
     seqs [ci ''INSERT'', Plus Space, ci ''INTO'', Plus Space,
           Group 1 (Plus (Atom (\<lambda>x. \<not> py_isspace x \<and> x \<noteq> CHR ''('')))]"

definition update_pattern :: regex where
  "update_pattern = seqs [ci ''UPDATE'', Plus Space, Group 1 (Plus NonSpace)]"

definition delete_pattern :: regex where
  "delete_pattern = seqs [ci ''DELETE'', Plus Space, ci ''FROM'', Plus Space, Group 1 (Plus NonSpace)]"

definition add_match :: "regex \<Rightarrow> string \<Rightarrow> pstr set \<Rightarrow> pstr set" where
  "add_match r query tables =
     (case re_search r query of
        None \<Rightarrow> tables
      | Some m \<Rightarrow> insert (group_text query m 1) tables)"

definition get_affected_tables :: "string \<Rightarrow> pstr set" where
  "get_affected_tables query =
     add_match delete_pattern query (add_match update_pattern query (add_match insert_pattern query {}))"

text \<open>
  The markers in the order in which \<open>_log_changes\<close> writes them: a tab for the tables of
  cases, a line feed for persons, a space for documents.
\<close>

definition change_markers :: "(char \<times> string list) list" where
  "change_markers =
     [(CHR 0x09, [''Cases'', ''CasePeople'', ''CaseDocuments'']),
      (CHR 0x0A, [''Persons'']),
      (CHR 0x20, [''Documents''])]"

definition log_entries :: "pstr set \<Rightarrow> string" where
  "log_entries tables =
     concat (map (\<lambda>(entry, table). if tables \<inter> set (map Some table) \<noteq> {} then [entry] else [])
                 change_markers)"

text \<open>
  A file is \<open>None\<close> when it does not exist and its text otherwise; opening for append
  creates it. \<open>denied\<close> is the number of times \<open>open\<close> raises \<open>PermissionError\<close> before it
  succeeds: each one sends \<open>_log_changes\<close> into itself again.
\<close>

fun log_changes :: "nat \<Rightarrow> string \<Rightarrow> string option \<Rightarrow> string option" where
  "log_changes 0 sql log =
     Some ((case log of None \<Rightarrow> [] | Some text \<Rightarrow> text) @ log_entries (get_affected_tables sql))"
| "log_changes (Suc denied) sql log = log_changes denied sql log"

text \<open>
  Reading in text mode turns \<open>\r\n\<close> and a lone \<open>\r\<close> into \<open>\n\<close>.
\<close>

fun universal_newlines :: "string \<Rightarrow> string" where
  "universal_newlines [] = []"
| "universal_newlines [c] = (if c = CHR 0x0D then [CHR 0x0A] else [c])"
| "universal_newlines (c # d # cs) =
     (if c = CHR 0x0D \<and> d = CHR 0x0A then CHR 0x0A # universal_newlines cs
      else if c = CHR 0x0D then CHR 0x0A # universal_newlines (d # cs)
      else c # universal_newlines (d # cs))"

record notifier =
  last_position :: nat

text \<open>
  \<open>poll_for_changes\<close> returns the notifier after the poll and what \<open>dataChanged\<close> emits:
  \<open>None\<close> when it emits nothing, the set of the characters read otherwise. Seeking past
  the end of the file reads nothing and leaves the position where it was put.
\<close>

definition poll_for_changes :: "string option \<Rightarrow> notifier \<Rightarrow> notifier \<times> char set option" where
  "poll_for_changes log_file n =
     (case log_file of
        None \<Rightarrow> (n, None)
      | Some text \<Rightarrow>
          (let changes = universal_newlines (drop (last_position n) text);
               n' = n\<lparr>last_position := max (last_position n) (length text)\<rparr>
           in if changes \<noteq> [] then (n', Some (set changes)) else (n', None)))"

section \<open>The lock coordinator (db.py)\<close>

text \<open>
  The files that the processes share: whether the write marker exists, the text of the
  read marker and the text of the change log.
\<close>

record files =
  write_lock :: bool
  read_lock :: "string option"
  changes_log :: "string option"

datatype lock = WriteLock | ReadLock

datatype outcome = Returned | Raised

text \<open>
  The places of a process inside \<open>with acquire_..._lock(): body\<close>. \<open>Waiting\<close>: in the
  \<open>while\<close> loop, about to look for the write marker. \<open>Passed\<close>: the marker was absent at
  the last look, the process is about to create its own marker. \<open>Held\<close>: inside the
  body. \<open>Leaving\<close>: in \<open>finally\<close>, with the outcome of the body. \<open>Removing\<close>: the write
  marker was seen, \<open>os.remove\<close> comes next. \<open>Finished\<close>: the statement is over.
\<close>

datatype phase = Waiting | Passed | Held | Leaving outcome | Removing outcome | Finished outcome

record process =
  lock :: lock
  body :: "string option \<Rightarrow> outcome \<times> string option"
  phase :: phase

definition append_space :: "string option \<Rightarrow> string option" where
  "append_space f = Some ((case f of None \<Rightarrow> [] | Some text \<Rightarrow> text) @ '' '')"

definition step_process :: "process \<Rightarrow> files \<Rightarrow> process \<times> files" where
  "step_process p f =
     (case phase p of
        Waiting \<Rightarrow> if write_lock f then (p, f) else (p\<lparr>phase := Passed\<rparr>, f)
      | Passed \<Rightarrow>
          (case lock p of
             WriteLock \<Rightarrow> (p\<lparr>phase := Held\<rparr>, f\<lparr>write_lock := True\<rparr>)
           | ReadLock \<Rightarrow> (p\<lparr>phase := Held\<rparr>, f\<lparr>read_lock := append_space (read_lock f)\<rparr>))
      | Held \<Rightarrow>
          (case body p (changes_log f) of
             (out, log') \<Rightarrow> (p\<lparr>phase := Leaving out\<rparr>, f\<lparr>changes_log := log'\<rparr>))
      | Leaving out \<Rightarrow>
          (case lock p of
             WriteLock \<Rightarrow> if write_lock f then (p\<lparr>phase := Removing out\<rparr>, f)
                          else (p\<lparr>phase := Finished out\<rparr>, f)
           | ReadLock \<Rightarrow> (p\<lparr>phase := Finished out\<rparr>, f\<lparr>read_lock := append_space (read_lock f)\<rparr>))
      | Removing out \<Rightarrow>
          if write_lock f then (p\<lparr>phase := Finished out\<rparr>, f\<lparr>write_lock := False\<rparr>)
          else (p\<lparr>phase := Finished Raised\<rparr>, f)
      | Finished out \<Rightarrow> (p, f))"

record system =
  shared :: files
  procs :: "process list"

definition step :: "nat \<Rightarrow> system \<Rightarrow> system" where
  "step i s =
     (if i < length (procs s)
      then (case step_process (procs s ! i) (shared s) of
              (p', f') \<Rightarrow> \<lparr>shared = f', procs = (procs s)[i := p']\<rparr>)
      else s)"

definition run :: "nat list \<Rightarrow> system \<Rightarrow> system" where
  "run schedule s = foldl (\<lambda>s i. step i s) s schedule"

text \<open>
  The operations of \<open>DatabaseAccess\<close>. Whether the database raises on the statement is not
  decided by this model: \<open>fails\<close> says so. \<open>_query\<close> and \<open>_execute\<close> both enter
  \<open>acquire_write_lock\<close>; \<open>_execute\<close> appends to the change log after the commit.
\<close>

definition query_op :: "bool \<Rightarrow> process" where
  "query_op fails =
     \<lparr>lock = WriteLock,
      body = (\<lambda>log. (if fails then Raised else Returned, log)),
      phase = Waiting\<rparr>"

definition execute_op :: "bool \<Rightarrow> nat \<Rightarrow> string \<Rightarrow> process" where
  "execute_op fails denied sql =
     \<lparr>lock = WriteLock,
      body = (\<lambda>log. if fails then (Raised, log) else (Returned, log_changes denied sql log)),
      phase = Waiting\<rparr>"

text \<open>
  \<open>_execute_many\<close> runs the statement and logs it once for each of \<open>rows\<close> parameter
  rows before the commit; \<open>fails\<close> says that the row after those raised.
\<close>

definition execute_many_op :: "bool \<Rightarrow> nat \<Rightarrow> nat \<Rightarrow> string \<Rightarrow> process" where
  "execute_many_op fails denied rows sql =
     \<lparr>lock = WriteLock,
      body = (\<lambda>log. (if fails then Raised else Returned,
                     ((\<lambda>l. log_changes denied sql l) ^^ rows) log)),
      phase = Waiting\<rparr>"

text \<open>A process that would use \<open>acquire_read_lock\<close>; no operation of the facade does.\<close>

definition read_lock_op :: "bool \<Rightarrow> process" where
  "read_lock_op fails =
     \<lparr>lock = ReadLock,
      body = (\<lambda>log. (if fails then Raised else Returned, log)),
      phase = Waiting\<rparr>"

section \<open>The search of the facade (db.py, \<open>DatabaseAccess.search\<close>)\<close>

fun min_len :: "'c list list \<Rightarrow> nat" where
  "min_len [] = 0"
| "min_len [r] = length r"
| "min_len (r # rs) = min (length r) (min_len rs)"

definition transpose_rows :: "'c list list \<Rightarrow> 'c list list" where
  "transpose_rows rows = map (\<lambda>j. map (\<lambda>r. r ! j) rows) [0..<min_len rows]"

type_synonym 'c found = "string \<times> 'c set \<times> string list option"

fun search_tables ::
  "'c list list \<Rightarrow> nat \<Rightarrow> (string \<times> string list option) list \<Rightarrow> py_error + 'c found list" where
  "search_tables transposed_results i [] = Inr []"
| "search_tables transposed_results i ((table, ret_vals) # rest) =
     (if table = ''Documents'' then search_tables transposed_results (Suc i) rest
      else if i < length transposed_results
      then ebind (search_tables transposed_results (Suc i) rest)
             (\<lambda>more. Inr ((table, set (transposed_results ! i), ret_vals) # more))
      else Inl IndexError)"

text \<open>
  \<open>query\<close> stands for \<open>self._query\<close>: the rows that the database returns for the statement
  and its parameters, or the exception it raises.
\<close>

fun search_loop ::
  "(string \<Rightarrow> pstr list \<Rightarrow> py_error + 'c list list) \<Rightarrow> compiled list \<Rightarrow> py_error + 'c found list" where
  "search_loop query [] = Inr []"
| "search_loop query ((tables, sql, params, all_ret_vals) # rest) =
     ebind (query sql params) (\<lambda>results.
       if results = [] then search_loop query rest
       else ebind (search_tables (transpose_rows results) 0 (zip tables all_ret_vals)) (\<lambda>found.
            ebind (search_loop query rest) (\<lambda>more. Inr (found @ more))))"

definition search ::
  "(string \<Rightarrow> pstr list \<Rightarrow> py_error + 'c list list) \<Rightarrow> string \<Rightarrow> py_error + 'c found list" where
  "search query user_input = ebind (get_sql_query_from_user_input user_input) (search_loop query)"

section \<open>The specification's wording of the REGEXP predicate\<close>

text \<open>
  The predicate as the specification words it: a pattern is wrapped in \<open>w\<close> when it begins
  and ends with \<open>w\<close>; stripping the wrapper leaves what stands between the two.
\<close>

definition wrapped :: "string \<Rightarrow> string \<Rightarrow> bool" where
  "wrapped w p = (prefix w p \<and> suffix w p)"

definition unwrap :: "string \<Rightarrow> string \<Rightarrow> string" where
  "unwrap w p = take (length p - 2 * length w) (drop (length w) p)"

definition matched :: "py_error + bool \<Rightarrow> bool" where
  "matched r = (case r of Inl e \<Rightarrow> False | Inr b \<Rightarrow> b)"

definition regexp_spec_str ::
  "(string \<Rightarrow> string \<Rightarrow> py_error + bool) \<Rightarrow> (bool \<Rightarrow> string \<Rightarrow> string \<Rightarrow> py_error + bool) \<Rightarrow>
   string \<Rightarrow> string \<Rightarrow> bool" where
  "regexp_spec_str fm sr p s =
     (if wrapped ''.*'' p then
        (if wrapped [CHR 0x27] (unwrap ''.*'' p)
         then matched (fm (unwrap [CHR 0x27] (unwrap ''.*'' p)) s)
         else matched (sr True (unwrap ''.*'' p) s))
      else if wrapped [CHR 0x27] p then matched (fm (unwrap [CHR 0x27] p) s)
      else matched (sr False p s))"

definition regexp_spec ::
  "(string \<Rightarrow> string \<Rightarrow> py_error + bool) \<Rightarrow> (bool \<Rightarrow> string \<Rightarrow> string \<Rightarrow> py_error + bool) \<Rightarrow>
   ('v \<Rightarrow> string) \<Rightarrow> string \<Rightarrow> 'v py_value \<Rightarrow> bool" where
  "regexp_spec fm sr str_of p v =
     (case v of
        PyNone \<Rightarrow> False
      | PyStr s \<Rightarrow> regexp_spec_str fm sr p s
      | PyOther x \<Rightarrow> regexp_spec_str fm sr p (str_of x))"


section \<open>Notions used to state the properties\<close>

text \<open>
  The columns of a group in declaration order, each with its table; the position of a
  column in this list is its index.
\<close>

definition all_columns :: "(string \<times> string list) list \<Rightarrow> (string \<times> string) list" where
  "all_columns tc = concat (map (\<lambda>(table, cols). map (\<lambda>column. (table, column)) cols) tc)"

text \<open>
  The arms of a relevance \<open>CASE\<close> that scores the column at position \<open>index\<close> with
  \<open>we n index\<close> for an exact match and \<open>wr n index\<close> for a regex match, \<open>n\<close> being the
  number of columns.
\<close>

fun relevance_arms ::
  "(int \<Rightarrow> int \<Rightarrow> int) \<Rightarrow> (int \<Rightarrow> int \<Rightarrow> int) \<Rightarrow> int \<Rightarrow> int \<Rightarrow> (string \<times> string) list \<Rightarrow> string list" where
  "relevance_arms we wr n index [] = []"
| "relevance_arms we wr n index ((table, column) # rest) =
     (''WHEN '' @ table @ ''.'' @ column @ '' = ? THEN '' @ str_int (we n index)) #
     (''WHEN '' @ table @ ''.'' @ column @ '' REGEXP ? THEN '' @ str_int (wr n index)) #
     relevance_arms we wr n (index + 1) rest"

text \<open>
  \<open>ranked_by we wr tc q\<close>: the SQL text \<open>q\<close> selects the key of the first table and a
  relevance that is the \<open>CASE\<close> of these arms, \<open>0\<close> otherwise, and it ends by ordering on
  the relevance, highest first.
\<close>

definition ranked_by ::
  "(int \<Rightarrow> int \<Rightarrow> int) \<Rightarrow> (int \<Rightarrow> int \<Rightarrow> int) \<Rightarrow> (string \<times> string list) list \<Rightarrow> string \<Rightarrow> bool" where
  "ranked_by we wr tc q =
     (case tc of
        [] \<Rightarrow> False
      | (main_table, cols) # others \<Rightarrow>
          prefix (''SELECT '' @ main_table @ ''.nb, NULL AS relevance, CASE'' @ '' '' @
                  join '' '' (relevance_arms we wr (int (length (all_columns tc))) 0 (all_columns tc)) @
                  '' ELSE 0 END AS relevance'') q \<and>
          suffix '' ORDER BY relevance DESC'' q)"

text \<open>
  The values and columns of the chained sub-terms of a clause, in the order of the input;
  a bare combinator carries none.
\<close>

definition sub_term_values :: "search_term list \<Rightarrow> pstr list" where
  "sub_term_values search_terms =
     map (\<lambda>(op, k, reg, v, flag). v) (filter (\<lambda>(op, k, reg, v, flag). \<not> truthy flag) search_terms)"

definition sub_term_columns :: "search_term list \<Rightarrow> pstr list" where
  "sub_term_columns search_terms =
     map (\<lambda>(op, k, reg, v, flag). k) (filter (\<lambda>(op, k, reg, v, flag). \<not> truthy flag) search_terms)"

definition cases_columns :: "(string \<times> string list) list" where
  "cases_columns = [(''Cases'', [''name'', ''description'', ''notes''])]"

text \<open>
  \<open>covered ms n\<close>: every position below \<open>n\<close> lies inside one of the matches, so the
  matches leave no part of a text of length \<open>n\<close> unconsumed.
\<close>

definition covered :: "re_match list \<Rightarrow> nat \<Rightarrow> bool" where
  "covered ms n = list_all (\<lambda>i. list_ex (\<lambda>m. m_start m \<le> i \<and> i < m_end m) ms) [0..<n]"

definition file_size :: "string option \<Rightarrow> nat" where
  "file_size f = (case f of None \<Rightarrow> 0 | Some text \<Rightarrow> length text)"

text \<open>
  A process holds the write lock from the creation of its marker to its removal. The
  invariant of the marker: while it exists, some process holds the write lock, or no
  process that takes the write lock has got past the waiting loop (the marker was there
  before any of them started).
\<close>

definition holding :: "process \<Rightarrow> bool" where
  "holding p =
     (lock p = WriteLock \<and>
      (case phase p of Held \<Rightarrow> True | Leaving out \<Rightarrow> True | Removing out \<Rightarrow> True | _ \<Rightarrow> False))"

definition finished :: "process \<Rightarrow> bool" where
  "finished p = (case phase p of Finished out \<Rightarrow> True | _ \<Rightarrow> False)"

definition marker_inv :: "system \<Rightarrow> bool" where
  "marker_inv s =
     (write_lock (shared s) \<longrightarrow>
        list_ex holding (procs s) \<or>
        list_all (\<lambda>p. lock p = WriteLock \<longrightarrow> phase p = Waiting) (procs s))"

definition idle_files :: files where
  "idle_files = \<lparr>write_lock = False, read_lock = None, changes_log = None\<rparr>"

definition two_readers :: system where
  "two_readers = \<lparr>shared = idle_files, procs = [query_op False, query_op False]\<rparr>"

definition two_writers :: system where
  "two_writers =
     \<lparr>shared = idle_files,
      procs = [execute_op False 0 ''DELETE FROM Persons WHERE nb = 5'',
               execute_op True 0 ''UPDATE Cases SET notes = ?'']\<rparr>"


section \<open>Properties of the REGEXP predicate\<close>

lemma startswith_prefix: "startswith s p = prefix p s"
  by (auto simp: startswith_def prefix_def) (metis append_take_drop_id)

lemma endswith_suffix: "endswith s p = suffix p s"
proof
  assume "endswith s p"
  then have "s = take (length s - length p) s @ p"
    by (metis append_take_drop_id endswith_def)
  then show "suffix p s" by (metis suffixI)
next
  assume "suffix p s"
  then obtain q where "s = q @ p" by (auto simp: suffix_def)
  then show "endswith s p" by (simp add: endswith_def)
qed

lemma wrapped_code: "(startswith p w \<and> endswith p w) = wrapped w p"
  by (simp add: wrapped_def startswith_prefix endswith_suffix)

lemma unwrap_long:
  assumes "wrapped w p" and "2 * length w \<le> length p" and "w \<noteq> []"
  shows "removesuffix (removeprefix p w) w = unwrap w p"
proof -
  from assms(1) have pre: "startswith p w" and suf: "endswith p w"
    by (simp_all add: wrapped_def startswith_prefix endswith_suffix)
  have rp: "removeprefix p w = drop (length w) p"
    using pre by (simp add: removeprefix_def)
  have "drop (length (drop (length w) p) - length w) (drop (length w) p) = drop (length p - length w) p"
    using assms(2) by simp
  then have "endswith (drop (length w) p) w"
    using suf assms(2) by (simp add: endswith_def)
  then show ?thesis
    using assms(3) by (simp add: rp removesuffix_def unwrap_def mult_2)
qed

lemma unwrap_self: "w \<noteq> [] \<Longrightarrow> removesuffix (removeprefix w w) w = unwrap w w"
  by (simp add: removeprefix_def removesuffix_def startswith_def endswith_def unwrap_def)

lemma wrapped_quote_cases:
  assumes "wrapped [CHR 0x27] p"
  shows "p = [CHR 0x27] \<or> 2 * length [CHR 0x27] \<le> length p"
proof (cases p)
  case Nil
  with assms show ?thesis by (simp add: wrapped_def)
next
  case (Cons a q)
  with assms show ?thesis by (cases q) (auto simp: wrapped_def)
qed

lemma wrapped_dotstar_cases:
  assumes "wrapped ''.*'' p"
  shows "p = ''.*'' \<or> 2 * length ''.*'' \<le> length p"
proof -
  from assms obtain r where r: "p = ''.*'' @ r" by (auto simp: wrapped_def prefix_def)
  from assms obtain l where l: "p = l @ ''.*''" by (auto simp: wrapped_def suffix_def)
  show ?thesis
  proof (cases r)
    case Nil
    with r show ?thesis by simp
  next
    case (Cons a r')
    note c1 = this
    show ?thesis
    proof (cases r')
      case Nil
      with r c1 l have "''.*'' @ [a] = l @ ''.*''" by simp
      then have False by (cases l rule: rev_cases) (auto simp: append_eq_Cons_conv Cons_eq_append_conv)
      then show ?thesis ..
    next
      case (Cons b r'')
      with r c1 show ?thesis by simp
    qed
  qed
qed

lemma unwrap_quote: "wrapped [CHR 0x27] p \<Longrightarrow> removesuffix (removeprefix p [CHR 0x27]) [CHR 0x27] = unwrap [CHR 0x27] p"
  using wrapped_quote_cases [of p] unwrap_long [of "[CHR 0x27]" p] unwrap_self [of "[CHR 0x27]"]
  by auto

lemma unwrap_dotstar: "wrapped ''.*'' p \<Longrightarrow> removesuffix (removeprefix p ''.*'') ''.*'' = unwrap ''.*'' p"
  using wrapped_dotstar_cases [of p] unwrap_long [of "''.*''" p] unwrap_self [of "''.*''"]
  by auto


text \<open>
  Claim C6. For every pattern and value, \<open>_regexp\<close> is the predicate of the specification:
  \<open>None\<close> gives \<open>False\<close>, any other value is taken as its display string; a pattern wrapped
  in \<open>.*\<close> loses the wrapper and is matched in full when what remains is wrapped in single
  quotes (without the quotes), and searched without regard to case otherwise; a pattern
  wrapped in single quotes alone is matched in full without them; any other pattern is
  searched; an exception raised on the way counts as no match.
\<close>

theorem regexp_refines_spec:
  "regexp fm sr str_of p v = regexp_spec fm sr str_of p v"
proof (cases v)
  case PyNone
  then show ?thesis by (simp add: regexp_def regexp_try_def regexp_spec_def)
next
  case (PyStr s)
  then show ?thesis
    by (simp add: regexp_def regexp_try_def regexp_spec_def regexp_spec_str_def wrapped_code
        unwrap_dotstar unwrap_quote matched_def Let_def)
next
  case (PyOther x)
  then show ?thesis
    by (simp add: regexp_def regexp_try_def regexp_spec_def regexp_spec_str_def wrapped_code
        unwrap_dotstar unwrap_quote matched_def Let_def)
qed


theorem regexp_refines_spec_witness:
  "regexp (\<lambda>p s. Inr (p = s)) (\<lambda>i p s. Inl RegexError) (\<lambda>x::nat. [])
     (''.*'' @ [CHR 0x27] @ ''ab'' @ [CHR 0x27] @ ''.*'') (PyStr ''ab'') \<and>
   \<not> regexp (\<lambda>p s. Inr (p = s)) (\<lambda>i p s. Inl RegexError) (\<lambda>x::nat. []) ''ab'' (PyStr ''ab'')"
proof -
  have a: "regexp_spec (\<lambda>p s. Inr (p = s)) (\<lambda>i p s. Inl RegexError) (\<lambda>x::nat. [])
     (''.*'' @ [CHR 0x27] @ ''ab'' @ [CHR 0x27] @ ''.*'') (PyStr ''ab'')"
    by code_simp
  have b: "\<not> regexp_spec (\<lambda>p s. Inr (p = s)) (\<lambda>i p s. Inl RegexError) (\<lambda>x::nat. [])
     ''ab'' (PyStr ''ab'')"
    by code_simp
  from a b show ?thesis by (simp only: regexp_refines_spec simp_thms)
qed

section \<open>Properties of the search of the facade\<close>

lemma search_tables_skip:
  "search_tables tr i zs = Inr fs \<Longrightarrow> ''Documents'' \<notin> fst ` set fs"
proof (induction zs arbitrary: i fs)
  case Nil
  then show ?case by simp
next
  case (Cons z zs)
  obtain table ret_vals where z: "z = (table, ret_vals)" by (cases z)
  show ?case
  proof (cases "table = ''Documents''")
    case True
    with Cons z show ?thesis by simp
  next
    case False
    with Cons.prems z obtain more where
      m: "search_tables tr (Suc i) zs = Inr more" and
      f: "fs = (table, set (tr ! i), ret_vals) # more"
      by (auto simp: ebind_def split: if_splits sum.splits)
    from Cons.IH [OF m] False f show ?thesis by simp
  qed
qed

lemma search_loop_skip:
  "search_loop query cs = Inr fs \<Longrightarrow> ''Documents'' \<notin> fst ` set fs"
proof (induction cs arbitrary: fs)
  case Nil
  then show ?case by simp
next
  case (Cons c cs)
  obtain tables sql params all_ret_vals where c: "c = (tables, sql, params, all_ret_vals)"
    by (cases c)
  from Cons.prems c obtain results where r: "query sql params = Inr results"
    by (auto simp: ebind_def split: sum.splits)
  show ?case
  proof (cases "results = []")
    case True
    with Cons c r show ?thesis by (simp add: ebind_def)
  next
    case False
    with Cons.prems c r obtain found more where
      a: "search_tables (transpose_rows results) 0 (zip tables all_ret_vals) = Inr found" and
      b: "search_loop query cs = Inr more" and
      e: "fs = found @ more"
      by (auto simp: ebind_def split: sum.splits)
    from search_tables_skip [OF a] Cons.IH [OF b] e show ?thesis by auto
  qed
qed


lemma parse_empty: "parse_user_input [] = Inr None"
  by code_simp

lemma compile_empty: "get_sql_query_from_user_input [] = Inr select_everything"
  by (simp add: get_sql_query_from_user_input_def parse_empty ebind_def)

text \<open>
  Claim C10. Whatever the query and whatever the database returns, a result of \<open>search\<close>
  holds no entry for the table \<open>Documents\<close>.
\<close>

theorem search_skips_documents:
  "search query user_input = Inr result \<Longrightarrow> ''Documents'' \<notin> fst ` set result"
  by (auto simp: search_def ebind_def split: sum.splits dest: search_loop_skip)


theorem search_skips_documents_witness:
  "search (\<lambda>sql params. Inr [[1, 2, 3], [4, 5, 6::nat]]) [] =
     Inr [(''Persons'', {1, 4}, Some [''first_name'', ''last_name'', ''can_be_lawyer'']),
          (''Cases'', {2, 5}, Some [''name''])] \<and>
   ''Documents'' \<notin> fst ` set [(''Persons'', {1, 4::nat}, Some [''first_name'', ''last_name'', ''can_be_lawyer'']),
          (''Cases'', {2, 5}, Some [''name''])]"
proof -
  have h: "search (\<lambda>sql params. Inr [[1, 2, 3], [4, 5, 6::nat]]) [] =
     Inr [(''Persons'', {1, 4}, Some [''first_name'', ''last_name'', ''can_be_lawyer'']),
          (''Cases'', {2, 5}, Some [''name''])]"
    by (simp add: search_def compile_empty ebind_def select_everything_def transpose_rows_def
        returns_map_items_def)
  from search_skips_documents [OF h] h show ?thesis by simp
qed

section \<open>Properties of the parser\<close>

lemma consumed_loop_covers:
  "consumed_loop ms k = Some e \<Longrightarrow> k \<le> i \<Longrightarrow> i < e \<Longrightarrow>
   \<exists>m \<in> set ms. m_start m \<le> i \<and> i < m_end m"
proof (induction ms arbitrary: k)
  case Nil
  then show ?case by simp
next
  case (Cons m ms)
  from Cons.prems(1) have st: "m_start m = k" and rest: "consumed_loop ms (m_end m) = Some e"
    by (auto split: if_splits)
  show ?case
  proof (cases "i < m_end m")
    case True
    with st Cons.prems(2) show ?thesis by auto
  next
    case False
    then have "m_end m \<le> i" by simp
    from Cons.IH [OF rest this Cons.prems(3)] show ?thesis by auto
  qed
qed

lemma consumed_string_covers:
  assumes "check_consumed_string s r = (ms, True)"
  shows "covered (finditer r s) (length s)"
proof -
  from assms have "consumed_loop (finditer r s) 0 = Some (length s)"
    by (auto simp: check_consumed_string_def Let_def split: if_splits option.splits)
  then have "\<And>i. i < length s \<Longrightarrow> \<exists>m \<in> set (finditer r s). m_start m \<le> i \<and> i < m_end m"
    by (rule consumed_loop_covers) simp_all
  then show ?thesis
    by (simp add: covered_def list_all_iff list_ex_iff)
qed

text \<open>
  Claim C5. \<open>_parse_user_input\<close> returns a list of clauses only if the matches of the
  table pattern consume the whole input; whenever some position of the input lies in no
  match, it returns \<open>None\<close>.
\<close>

theorem parse_consumes_input:
  "(parse_user_input s = Inr (Some clauses) \<longrightarrow> covered (finditer table_pattern s) (length s)) \<and>
   (\<not> covered (finditer table_pattern s) (length s) \<longrightarrow> parse_user_input s = Inr None)"
proof -
  obtain ms c where cc: "check_consumed_string s table_pattern = (ms, c)"
    by (cases "check_consumed_string s table_pattern")
  show ?thesis
  proof (cases c)
    case True
    with cc have "covered (finditer table_pattern s) (length s)"
      by (simp add: consumed_string_covers)
    then show ?thesis by simp
  next
    case False
    with cc have "parse_user_input s = Inr None"
      by (simp add: parse_user_input_def)
    then show ?thesis by simp
  qed
qed

theorem parse_consumes_input_witness:
  "parse_user_input ''a&b'' =
     Inr (Some [((None, None, None, None, Some ''a''), [(None, None, None, None, Some ''&'')]),
                ((None, None, None, None, Some ''b''), [])]) \<and>
   covered (finditer table_pattern ''a&b'') (length ''a&b'') \<and>
   \<not> covered (finditer table_pattern ''a{'') (length ''a{'') \<and>
   parse_user_input ''a{'' = Inr None"
proof -
  have a: "parse_user_input ''a&b'' =
     Inr (Some [((None, None, None, None, Some ''a''), [(None, None, None, None, Some ''&'')]),
                ((None, None, None, None, Some ''b''), [])])"
    by code_simp
  have b: "\<not> covered (finditer table_pattern ''a{'') (length ''a{'')"
    by code_simp
  from a b parse_consumes_input [of "''a&b''"
      "[((None, None, None, None, Some ''a''), [(None, None, None, None, Some ''&'')]),
        ((None, None, None, None, Some ''b''), [])]"]
    parse_consumes_input [of "''a{''" "[]"]
  show ?thesis by blast
qed

section \<open>Properties of the query compiler\<close>

text \<open>
  Claim C8. For the empty input the compiler returns one compiled query over the three
  tables \<open>Persons\<close>, \<open>Cases\<close> and \<open>Documents\<close>, with no parameters and the default
  return spec of each group.
\<close>

theorem compile_empty_input:
  "get_sql_query_from_user_input [] =
     Inr [([''Persons'', ''Cases'', ''Documents''],
           ''SELECT Persons.nb, Cases.nb, Documents.nb FROM Persons FULL OUTER JOIN Cases FULL OUTER JOIN Documents'',
           [],
           [returns_map_get (Some [''Persons'', ''CasePeople'']),
            returns_map_get (Some [''Cases'']),
            returns_map_get (Some [''Documents''])])] \<and>
   returns_map_get (Some [''Persons'', ''CasePeople'']) = Some [''first_name'', ''last_name'', ''can_be_lawyer''] \<and>
   returns_map_get (Some [''Cases'']) = Some [''name''] \<and>
   returns_map_get (Some [''Documents'']) = Some [''name'']"
  by (simp add: get_sql_query_from_user_input_def parse_empty ebind_def select_everything_def
      returns_map_get_def returns_map_items_def)

text \<open>
  Claim C9. The claim is that a clause naming a group outside \<open>user\<close>, \<open>case\<close>, \<open>docu\<close>
  yields no compiled query. The input \<open>foo:x\<close> parses into one clause with the group
  \<open>foo\<close>, which is no key of \<open>_map\<close>; the compiler takes the branch written for a clause
  without a group and returns three compiled queries, one for each group.
\<close>

theorem unknown_group_fans_out:
  "parse_user_input ''foo:x'' = Inr (Some [((Some ''foo'', None, None, Some '':'', Some ''x''), [])]) \<and>
   map_get (Some ''foo'') = None \<and>
   map_sum id (map fst) (get_sql_query_from_user_input ''foo:x'') =
     Inr [[''Persons''], [''Cases''], [''Documents'']]"
  by code_simp

text \<open>
  With an explicit column the same group name ends the compilation with \<open>KeyError\<close>,
  raised by the lookup in \<open>_generate_query\<close>.
\<close>

lemma unknown_group_with_column: "get_sql_query_from_user_input ''foo{name}:x'' = Inl KeyError"
  by code_simp

lemma case_columns_arms:
  "case_columns table cols n k =
     (relevance_arms (\<lambda>n i. n + 2 - i) (\<lambda>n i. n - i) n k (map (\<lambda>column. (table, column)) cols),
      k + int (length cols))"
  by (induction cols arbitrary: k) auto

lemma relevance_arms_append:
  "relevance_arms we wr n k (xs @ ys) =
     relevance_arms we wr n k xs @ relevance_arms we wr n (k + int (length xs)) ys"
  by (induction xs arbitrary: k) (auto simp: algebra_simps)

lemma case_tables_arms:
  "case_tables tc n k = relevance_arms (\<lambda>n i. n + 2 - i) (\<lambda>n i. n - i) n k (all_columns tc)"
proof (induction tc arbitrary: k)
  case Nil
  then show ?case by (simp add: all_columns_def)
next
  case (Cons a tc)
  obtain table cols where a: "a = (table, cols)" by (cases a)
  have "all_columns (a # tc) = map (\<lambda>column. (table, column)) cols @ all_columns tc"
    by (simp add: all_columns_def a)
  with Cons a show ?case
    by (simp add: case_columns_arms relevance_arms_append)
qed

lemma length_all_columns:
  "length (all_columns tc) = sum_list (map (\<lambda>(k, cols). length cols) tc)"
  by (induction tc) (auto simp: all_columns_def)

lemma len_columns:
  "int (sum_list (map (\<lambda>(k, cols). length cols) tc)) = int (length (all_columns tc))"
  by (simp add: length_all_columns)

lemma full_query_unfold:
  "generate_full_query ((main_table, cols) # others) term extra = Inr (q, ps) \<Longrightarrow>
   tc = (main_table, cols) # others \<Longrightarrow>
   prefix (''SELECT '' @ main_table @ ''.nb, NULL AS relevance, CASE'' @ '' '' @
           join '' '' (case_tables tc (int (length (all_columns tc))) 0) @
           '' ELSE 0 END AS relevance'') q \<and>
   suffix '' ORDER BY relevance DESC'' q \<and>
   ps = replicate (nat (int (length (all_columns tc)) * 2 + int (length (all_columns tc))))
          (Some (''.*'' @ fmt term @ ''.*'')) @
        map (\<lambda>(column, logic, operator, v). v) extra"
  unfolding generate_full_query_def
  apply (simp only: list.case prod.case Let_def sum.inject prod.inject len_columns)
  apply (elim conjE)
  apply hypsubst
  apply (intro conjI)
    apply (rule prefixI)
    apply (simp only: append_assoc)
   apply (intro suffix_appendI suffix_order.refl)
  apply (rule refl)
  done

lemma full_query_nonempty:
  assumes "generate_full_query tc term extra = Inr (q, ps)"
  obtains main_table cols others where "tc = (main_table, cols) # others"
  using assms by (cases tc) (auto simp: generate_full_query_def)

text \<open>
  Claim C2, as the code has it. For every vague clause over tables with \<open>n\<close> columns in
  total, the compiled SQL scores the column at position \<open>index\<close> with \<open>n + 2 - index\<close>
  for an exact match and with \<open>n - index\<close> for a regex match, \<open>0\<close> otherwise, and orders
  the rows by relevance, highest first.
\<close>

theorem full_query_ranking:
  assumes "generate_full_query tc term extra = Inr (q, ps)"
  shows "ranked_by (\<lambda>n i. n + 2 - i) (\<lambda>n i. n - i) tc q"
proof -
  from assms obtain main_table cols others where tc: "tc = (main_table, cols) # others"
    by (rule full_query_nonempty)
  from assms have "generate_full_query ((main_table, cols) # others) term extra = Inr (q, ps)"
    by (simp only: tc)
  from full_query_unfold [OF this tc]
  have "prefix (''SELECT '' @ main_table @ ''.nb, NULL AS relevance, CASE'' @ '' '' @
           join '' '' (relevance_arms (\<lambda>n i. n + 2 - i) (\<lambda>n i. n - i)
                         (int (length (all_columns tc))) 0 (all_columns tc)) @
           '' ELSE 0 END AS relevance'') q \<and>
        suffix '' ORDER BY relevance DESC'' q"
    by (simp only: case_tables_arms simp_thms)
  then show ?thesis
    unfolding ranked_by_def by (simp only: tc [symmetric]) (simp only: tc list.case prod.case)
qed

theorem full_query_ranking_witness:
  "generate_full_query cases_columns (Some ''x'') [] =
     Inr (''SELECT Cases.nb, NULL AS relevance, CASE WHEN Cases.name = ? THEN 5 WHEN Cases.name REGEXP ? THEN 3 WHEN Cases.description = ? THEN 4 WHEN Cases.description REGEXP ? THEN 2 WHEN Cases.notes = ? THEN 3 WHEN Cases.notes REGEXP ? THEN 1 ELSE 0 END AS relevance FROM Cases WHERE Cases.name REGEXP ? OR Cases.description REGEXP ? OR Cases.notes REGEXP ? ORDER BY relevance DESC'',
          replicate 9 (Some ''.*x.*'')) \<and>
   ranked_by (\<lambda>n i. n + 2 - i) (\<lambda>n i. n - i) cases_columns
     ''SELECT Cases.nb, NULL AS relevance, CASE WHEN Cases.name = ? THEN 5 WHEN Cases.name REGEXP ? THEN 3 WHEN Cases.description = ? THEN 4 WHEN Cases.description REGEXP ? THEN 2 WHEN Cases.notes = ? THEN 3 WHEN Cases.notes REGEXP ? THEN 1 ELSE 0 END AS relevance FROM Cases WHERE Cases.name REGEXP ? OR Cases.description REGEXP ? OR Cases.notes REGEXP ? ORDER BY relevance DESC''"
proof -
  have h: "generate_full_query cases_columns (Some ''x'') [] =
     Inr (''SELECT Cases.nb, NULL AS relevance, CASE WHEN Cases.name = ? THEN 5 WHEN Cases.name REGEXP ? THEN 3 WHEN Cases.description = ? THEN 4 WHEN Cases.description REGEXP ? THEN 2 WHEN Cases.notes = ? THEN 3 WHEN Cases.notes REGEXP ? THEN 1 ELSE 0 END AS relevance FROM Cases WHERE Cases.name REGEXP ? OR Cases.description REGEXP ? OR Cases.notes REGEXP ? ORDER BY relevance DESC'',
          replicate 9 (Some ''.*x.*''))"
    by code_simp
  from full_query_ranking [OF h] h show ?thesis by (rule_tac conjI)
qed

text \<open>
  The weight \<open>n * 2 + 2 - index\<close> for an exact match is not the one compiled: over the
  three columns of \<open>Cases\<close> the first arm carries 5, not 8.
\<close>

theorem full_query_ranking_counterexample:
  "generate_full_query cases_columns (Some ''x'') [] =
     Inr (''SELECT Cases.nb, NULL AS relevance, CASE WHEN Cases.name = ? THEN 5 WHEN Cases.name REGEXP ? THEN 3 WHEN Cases.description = ? THEN 4 WHEN Cases.description REGEXP ? THEN 2 WHEN Cases.notes = ? THEN 3 WHEN Cases.notes REGEXP ? THEN 1 ELSE 0 END AS relevance FROM Cases WHERE Cases.name REGEXP ? OR Cases.description REGEXP ? OR Cases.notes REGEXP ? ORDER BY relevance DESC'',
          replicate 9 (Some ''.*x.*'')) \<and>
   \<not> ranked_by (\<lambda>n i. n * 2 + 2 - i) (\<lambda>n i. n - i) cases_columns
     ''SELECT Cases.nb, NULL AS relevance, CASE WHEN Cases.name = ? THEN 5 WHEN Cases.name REGEXP ? THEN 3 WHEN Cases.description = ? THEN 4 WHEN Cases.description REGEXP ? THEN 2 WHEN Cases.notes = ? THEN 3 WHEN Cases.notes REGEXP ? THEN 1 ELSE 0 END AS relevance FROM Cases WHERE Cases.name REGEXP ? OR Cases.description REGEXP ? OR Cases.notes REGEXP ? ORDER BY relevance DESC''"
  by code_simp

text \<open>
  The parameters of \<open>_generate_full_query\<close>: three copies of the wrapped term for each
  column, then the values of the additional search terms in the order of the dict.
\<close>

theorem full_query_params:
  assumes "generate_full_query tc term extra = Inr (q, ps)"
  shows "ps = replicate (3 * length (all_columns tc)) (Some (''.*'' @ fmt term @ ''.*'')) @
              map (\<lambda>(column, logic, operator, v). v) extra"
proof -
  from assms obtain main_table cols others where tc: "tc = (main_table, cols) # others"
    by (rule full_query_nonempty)
  from assms have "generate_full_query ((main_table, cols) # others) term extra = Inr (q, ps)"
    by (simp only: tc)
  from full_query_unfold [OF this tc]
  have "ps = replicate (nat (int (length (all_columns tc)) * 2 + int (length (all_columns tc))))
          (Some (''.*'' @ fmt term @ ''.*'')) @
        map (\<lambda>(column, logic, operator, v). v) extra"
    by (elim conjE)
  moreover have "\<And>m::nat. nat (int m * 2 + int m) = 3 * m"
    by simp
  ultimately show ?thesis by (simp only:)
qed

lemma dict_setitem_new:
  "k \<notin> fst ` set d \<Longrightarrow> dict_setitem k v d = d @ [(k, v)]"
  by (induction d) auto

lemma dict_fold_distinct:
  "distinct (map fst (d @ xs)) \<Longrightarrow> foldl (\<lambda>d (k, v). dict_setitem k v d) d xs = d @ xs"
proof (induction xs arbitrary: d)
  case Nil
  then show ?case by simp
next
  case (Cons x xs)
  obtain k v where x: "x = (k, v)" by (cases x)
  from Cons.prems x have new: "k \<notin> fst ` set d" by auto
  from Cons.prems have "distinct (map fst ((d @ [x]) @ xs))" by simp
  from Cons.IH [OF this] new x show ?case by (simp add: dict_setitem_new)
qed

lemma dict_from_distinct: "distinct (map fst xs) \<Longrightarrow> dict_from xs = xs"
  using dict_fold_distinct [of "[]" xs] by (simp add: dict_from_def)

lemma normalized_extra_values:
  assumes "distinct (sub_term_columns search_terms)"
  shows "map (\<lambda>(column, logic, operator, v). v) (normalized_extra search_terms) =
         sub_term_values search_terms"
proof -
  let ?items = "map (\<lambda>(op, k, reg, v, flag). (k, (if op = Some ''|'' then ''OR'' else ''AND'', reg = Some '':'', v)))
                    (filter (\<lambda>(op, k, reg, v, flag). \<not> truthy flag) search_terms)"
  have "map fst ?items = sub_term_columns search_terms"
    by (simp add: sub_term_columns_def split_def comp_def)
  with assms have "dict_from ?items = ?items"
    by (simp only: dict_from_distinct)
  then show ?thesis
    by (simp add: normalized_extra_def sub_term_values_def split_def comp_def)
qed

text \<open>
  When the chained sub-terms of a clause name pairwise different columns, the parameters
  end with the values of the sub-terms in the order of the input.
\<close>

theorem vague_clause_params:
  assumes "distinct (sub_term_columns search_terms)"
    and "generate_full_query tc term (normalized_extra search_terms) = Inr (q, ps)"
  shows "ps = replicate (3 * length (all_columns tc)) (Some (''.*'' @ fmt term @ ''.*'')) @
              sub_term_values search_terms"
  using full_query_params [OF assms(2)] normalized_extra_values [OF assms(1)] by simp

theorem vague_clause_params_example:
  "distinct (sub_term_columns [(Some ''&'', Some ''name'', Some ''='', Some ''A '', None),
                               (Some ''|'', Some ''notes'', Some '':'', Some ''B'', None)]) \<and>
   generate_full_query cases_columns (Some ''x '')
     (normalized_extra [(Some ''&'', Some ''name'', Some ''='', Some ''A '', None),
                        (Some ''|'', Some ''notes'', Some '':'', Some ''B'', None)]) =
     Inr (''SELECT Cases.nb, NULL AS relevance, CASE WHEN Cases.name = ? THEN 5 WHEN Cases.name REGEXP ? THEN 3 WHEN Cases.description = ? THEN 4 WHEN Cases.description REGEXP ? THEN 2 WHEN Cases.notes = ? THEN 3 WHEN Cases.notes REGEXP ? THEN 1 ELSE 0 END AS relevance FROM Cases WHERE (Cases.name REGEXP ? OR Cases.description REGEXP ? OR Cases.notes REGEXP ?) AND Cases.name = ? OR Cases.notes REGEXP ? ORDER BY relevance DESC'',
          replicate 9 (Some ''.*x .*'') @ [Some ''A '', Some ''B''])"
  by code_simp

text \<open>
  Claim C3. The claim is that the parameters of a vague clause are the 3N copies of the
  wrapped term followed by the values of all chained sub-terms in input order. The input
  \<open>case:x &{name}=A &{name}=B\<close> has the two sub-term values \<open>A \<close> and \<open>B\<close>; the dict
  keyed by column keeps one entry for \<open>name\<close>, and the compiled parameters are nine copies
  of the wrapped term followed by \<open>B\<close> alone.
\<close>

theorem repeated_column_drops_value:
  "map_sum id (map_option (map (\<lambda>(main, search_terms). sub_term_values search_terms)))
     (parse_user_input ''case:x &{name}=A &{name}=B'') =
     Inr (Some [[Some ''A '', Some ''B'']]) \<and>
   map_sum id (map (\<lambda>(tables, sql, params, rets). params))
     (get_sql_query_from_user_input ''case:x &{name}=A &{name}=B'') =
     Inr [replicate 9 (Some ''.*x .*'') @ [Some ''B'']]"
  by code_simp

section \<open>Properties of the change log and the notifier\<close>

lemma delete_person_tables:
  "get_affected_tables ''DELETE FROM Persons WHERE nb = 5'' = {Some ''Persons''}"
  by code_simp

lemma persons_statements:
  "get_affected_tables ''DELETE FROM Persons WHERE nb = 5'' = {Some ''Persons''}"
  "get_affected_tables ''UPDATE Persons SET notes = ? WHERE nb = ?'' = {Some ''Persons''}"
  "get_affected_tables ''INSERT INTO Persons (last_name, first_name, address, birth_date, contact_info, gender, description, notes, can_be_lawyer) VALUES (?, ?, ?, ?, ?, ?, ?, ?, ?)'' = {Some ''Persons''}"
  by code_simp+

text \<open>
  Claim C7, as the code has it. A statement whose affected tables are \<open>Persons\<close> alone
  appends the one marker of persons to the change log. If the notifier had read the log
  to its end before, the next poll emits the set of that marker alone and moves the
  position to the end of the file, and a second poll emits nothing.
\<close>

theorem persons_change_seen_once:
  assumes "get_affected_tables sql = {Some ''Persons''}"
    and "last_position n = file_size log"
  shows "log_changes denied sql log = Some ((case log of None \<Rightarrow> [] | Some text \<Rightarrow> text) @ [CHR 0x0A]) \<and>
         poll_for_changes (log_changes denied sql log) n =
           (n\<lparr>last_position := file_size (log_changes denied sql log)\<rparr>, Some {CHR 0x0A}) \<and>
         poll_for_changes (log_changes denied sql log)
             (fst (poll_for_changes (log_changes denied sql log) n)) =
           (fst (poll_for_changes (log_changes denied sql log) n), None)"
proof -
  have e: "log_entries {Some ''Persons''} = [CHR 0x0A]"
    by (simp add: log_entries_def change_markers_def)
  have l: "log_changes denied sql log = Some ((case log of None \<Rightarrow> [] | Some text \<Rightarrow> text) @ [CHR 0x0A])"
    by (induction denied) (simp_all add: assms(1) e)
  show ?thesis
  proof (cases log)
    case None
    with assms(2) have "last_position n = 0" by (simp add: file_size_def)
    with None show ?thesis
      unfolding l by (simp add: poll_for_changes_def Let_def file_size_def)
  next
    case (Some content)
    with assms(2) have "last_position n = length content" by (simp add: file_size_def)
    with Some show ?thesis
      unfolding l by (simp add: poll_for_changes_def Let_def file_size_def)
  qed
qed

theorem persons_change_seen_once_witness:
  "get_affected_tables ''DELETE FROM Persons WHERE nb = 5'' = {Some ''Persons''} \<and>
   last_position \<lparr>last_position = 1\<rparr> = file_size (Some [CHR 0x09]) \<and>
   log_changes 0 ''DELETE FROM Persons WHERE nb = 5'' (Some [CHR 0x09]) = Some [CHR 0x09, CHR 0x0A] \<and>
   poll_for_changes (log_changes 0 ''DELETE FROM Persons WHERE nb = 5'' (Some [CHR 0x09]))
       \<lparr>last_position = 1\<rparr> =
     (\<lparr>last_position = 2\<rparr>, Some {CHR 0x0A}) \<and>
   poll_for_changes (log_changes 0 ''DELETE FROM Persons WHERE nb = 5'' (Some [CHR 0x09]))
       \<lparr>last_position = 2\<rparr> =
     (\<lparr>last_position = 2\<rparr>, None)"
proof -
  have a: "get_affected_tables ''DELETE FROM Persons WHERE nb = 5'' = {Some ''Persons''}"
    by code_simp
  have b: "last_position \<lparr>last_position = 1\<rparr> = file_size (Some [CHR 0x09])"
    by (simp add: file_size_def)
  note t = persons_change_seen_once [OF a b, of 0]
  have c: "log_changes 0 ''DELETE FROM Persons WHERE nb = 5'' (Some [CHR 0x09]) = Some [CHR 0x09, CHR 0x0A]"
    using t by simp
  from t have p1: "poll_for_changes (Some [CHR 0x09, CHR 0x0A]) \<lparr>last_position = 1\<rparr> =
      (\<lparr>last_position = 2\<rparr>, Some {CHR 0x0A})"
    unfolding c by (simp add: file_size_def)
  from t have p2: "poll_for_changes (Some [CHR 0x09, CHR 0x0A]) \<lparr>last_position = 2\<rparr> =
      (\<lparr>last_position = 2\<rparr>, None)"
    unfolding c p1 by simp
  show ?thesis
    unfolding c by (intro conjI a b p1 p2 refl)
qed

text \<open>
  Without that condition the poll emits more: a notifier still at position 0, as it is
  when the application starts, reads the markers written before as well.
\<close>

theorem persons_change_counterexample:
  "get_affected_tables ''DELETE FROM Persons WHERE nb = 5'' = {Some ''Persons''} \<and>
   log_changes 0 ''DELETE FROM Persons WHERE nb = 5'' (Some [CHR 0x09]) = Some [CHR 0x09, CHR 0x0A] \<and>
   poll_for_changes (log_changes 0 ''DELETE FROM Persons WHERE nb = 5'' (Some [CHR 0x09]))
       \<lparr>last_position = 0\<rparr> =
     (\<lparr>last_position = 2\<rparr>, Some {CHR 0x09, CHR 0x0A}) \<and>
   {CHR 0x09, CHR 0x0A} \<noteq> {CHR 0x0A}"
  by (simp add: delete_person_tables log_entries_def change_markers_def poll_for_changes_def)

section \<open>Properties of the lock coordinator\<close>

lemma step_process_lock: "step_process p f = (p', f') \<Longrightarrow> lock p' = lock p"
  by (auto simp: step_process_def split: phase.splits lock.splits if_splits prod.splits)

lemma step_locks: "map lock (procs (step i s)) = map lock (procs s)"
proof (cases "i < length (procs s)")
  case True
  obtain p' f' where st: "step_process (procs s ! i) (shared s) = (p', f')"
    by (cases "step_process (procs s ! i) (shared s)")
  from step_process_lock [OF st] True st show ?thesis
    by (simp add: step_def map_update list_update_same_conv)
next
  case False
  then show ?thesis by (simp add: step_def)
qed

lemma run_locks: "map lock (procs (run schedule s)) = map lock (procs s)"
  unfolding run_def
  by (induction schedule arbitrary: s) (simp_all add: step_locks)

lemma step_process_cases:
  assumes "step_process p f = (p', f')"
  shows "(write_lock f' \<and> \<not> write_lock f \<and> holding p') \<or>
         \<not> write_lock f' \<or>
         (write_lock f' \<and> write_lock f \<and> (holding p \<longrightarrow> holding p') \<and>
            (lock p = WriteLock \<and> phase p = Waiting \<longrightarrow> phase p' = Waiting))"
  using assms
  by (auto simp: step_process_def holding_def split: phase.splits lock.splits if_splits prod.splits)

lemma step_inv:
  assumes "marker_inv s"
  shows "marker_inv (step i s)"
proof (cases "i < length (procs s)")
  case False
  with assms show ?thesis by (simp add: step_def)
next
  case True
  obtain p' f' where st: "step_process (procs s ! i) (shared s) = (p', f')"
    by (cases "step_process (procs s ! i) (shared s)")
  have s': "step i s = \<lparr>shared = f', procs = (procs s)[i := p']\<rparr>"
    using True st by (simp add: step_def)
  let ?p = "procs s ! i"
  from step_process_cases [OF st] consider
      (create) "write_lock f'" "\<not> write_lock (shared s)" "holding p'"
    | (clear) "\<not> write_lock f'"
    | (keep) "write_lock f'" "write_lock (shared s)" "holding ?p \<longrightarrow> holding p'"
        "lock ?p = WriteLock \<and> phase ?p = Waiting \<longrightarrow> phase p' = Waiting"
    by blast
  then show ?thesis
  proof cases
    case create
    from create(3) True have "list_ex holding ((procs s)[i := p'])"
      by (auto simp: list_ex_iff set_update_memI)
    then show ?thesis by (simp add: marker_inv_def s')
  next
    case clear
    then show ?thesis by (simp add: marker_inv_def s')
  next
    case keep
    from assms keep(2) consider
        (h) "list_ex holding (procs s)"
      | (w) "list_all (\<lambda>p. lock p = WriteLock \<longrightarrow> phase p = Waiting) (procs s)"
      by (auto simp: marker_inv_def)
    then show ?thesis
    proof cases
      case h
      then obtain j where j: "j < length (procs s)" "holding (procs s ! j)"
        by (auto simp: list_ex_iff in_set_conv_nth)
      have "holding ((procs s)[i := p'] ! j)"
      proof (cases "j = i")
        case True
        with j keep(3) show ?thesis by simp
      next
        case False
        with j show ?thesis by simp
      qed
      with j(1) have "list_ex holding ((procs s)[i := p'])"
        by (metis length_list_update list_ex_iff nth_mem)
      then show ?thesis by (simp add: marker_inv_def s')
    next
      case w
      have lk: "lock p' = lock ?p" by (rule step_process_lock [OF st])
      have "lock q = WriteLock \<longrightarrow> phase q = Waiting" if "q \<in> set ((procs s)[i := p'])" for q
      proof -
        from that obtain j where j: "j < length (procs s)" "q = (procs s)[i := p'] ! j"
          by (auto simp: in_set_conv_nth)
        show ?thesis
        proof (cases "j = i")
          case True
          with j have "q = p'" by simp
          moreover from w True j(1) have "lock ?p = WriteLock \<longrightarrow> phase ?p = Waiting"
            by (auto simp: list_all_iff)
          ultimately show ?thesis using keep(4) lk by auto
        next
          case False
          with j have "q = procs s ! j" by simp
          with w j(1) show ?thesis by (auto simp: list_all_iff)
        qed
      qed
      then have "list_all (\<lambda>p. lock p = WriteLock \<longrightarrow> phase p = Waiting) ((procs s)[i := p'])"
        by (simp add: list_all_iff)
      then show ?thesis by (simp add: marker_inv_def s')
    qed
  qed
qed

lemma run_inv: "marker_inv s \<Longrightarrow> marker_inv (run schedule s)"
  unfolding run_def
  by (induction schedule arbitrary: s) (simp_all add: step_inv)

lemma finished_not_holding: "finished p \<Longrightarrow> \<not> holding p"
  by (auto simp: finished_def holding_def split: phase.splits)

lemma finished_not_waiting: "finished p \<Longrightarrow> phase p \<noteq> Waiting"
  by (auto simp: finished_def)

lemma all_finished_released:
  assumes inv: "marker_inv t"
    and w: "list_ex (\<lambda>p. lock p = WriteLock) (procs t)"
    and f: "list_all (\<lambda>p. lock p = WriteLock \<longrightarrow> finished p) (procs t)"
  shows "\<not> write_lock (shared t)"
proof
  assume m: "write_lock (shared t)"
  with inv consider
      (h) "list_ex holding (procs t)"
    | (a) "list_all (\<lambda>p. lock p = WriteLock \<longrightarrow> phase p = Waiting) (procs t)"
    by (auto simp: marker_inv_def)
  then show False
  proof cases
    case h
    then obtain p where "p \<in> set (procs t)" "holding p" by (auto simp: list_ex_iff)
    with f show False
      by (auto simp: list_all_iff holding_def finished_def split: phase.splits)
  next
    case a
    from w obtain p where "p \<in> set (procs t)" "lock p = WriteLock" by (auto simp: list_ex_iff)
    with a f show False
      by (auto simp: list_all_iff dest: finished_not_waiting)
  qed
qed

text \<open>
  Claim C4. A process that takes the write lock creates the marker when it enters the
  body; from \<open>finally\<close>, whether the body returned or raised, its next two steps leave the
  marker absent; and in every interleaving of processes that all start in the waiting
  loop, once every process that takes the write lock has finished, the marker is absent.
\<close>

theorem write_lock_released:
  "(i < length (procs s) \<and> lock (procs s ! i) = WriteLock \<and> phase (procs s ! i) = Passed \<longrightarrow>
      write_lock (shared (step i s)) \<and> phase (procs (step i s) ! i) = Held) \<and>
   (i < length (procs s) \<and> lock (procs s ! i) = WriteLock \<and> phase (procs s ! i) = Leaving out \<longrightarrow>
      \<not> write_lock (shared (step i (step i s))) \<and>
      phase (procs (step i (step i s)) ! i) = Finished out) \<and>
   (list_all (\<lambda>p. phase p = Waiting) (procs s) \<and>
    list_ex (\<lambda>p. lock p = WriteLock) (procs s) \<and>
    list_all (\<lambda>p. lock p = WriteLock \<longrightarrow> finished p) (procs (run schedule s)) \<longrightarrow>
      \<not> write_lock (shared (run schedule s)))"
proof -
  have acquire: "write_lock (shared (step i s)) \<and> phase (procs (step i s) ! i) = Held"
    if "i < length (procs s) \<and> lock (procs s ! i) = WriteLock \<and> phase (procs s ! i) = Passed"
    using that by (simp add: step_def step_process_def)
  have release: "\<not> write_lock (shared (step i (step i s))) \<and>
      phase (procs (step i (step i s)) ! i) = Finished out"
    if "i < length (procs s) \<and> lock (procs s ! i) = WriteLock \<and> phase (procs s ! i) = Leaving out"
    using that by (simp add: step_def step_process_def)
  have all_done: "\<not> write_lock (shared (run schedule s))"
    if a: "list_all (\<lambda>p. phase p = Waiting) (procs s) \<and>
      list_ex (\<lambda>p. lock p = WriteLock) (procs s) \<and>
      list_all (\<lambda>p. lock p = WriteLock \<longrightarrow> finished p) (procs (run schedule s))"
  proof -
    from a have "marker_inv s"
      by (auto simp: marker_inv_def list_all_iff)
    then have inv: "marker_inv (run schedule s)" by (rule run_inv)
    from a have "WriteLock \<in> set (map lock (procs s))"
      by (force simp: list_ex_iff)
    then have "WriteLock \<in> set (map lock (procs (run schedule s)))"
      by (simp only: run_locks)
    then have w: "list_ex (\<lambda>p. lock p = WriteLock) (procs (run schedule s))"
      by (force simp: list_ex_iff)
    from a all_finished_released [OF inv w] show ?thesis
      by blast
  qed
  from acquire release all_done show ?thesis by blast
qed

theorem write_lock_released_witness:
  "list_all (\<lambda>p. phase p = Waiting) (procs two_writers) \<and>
   list_ex (\<lambda>p. lock p = WriteLock) (procs two_writers) \<and>
   list_all (\<lambda>p. lock p = WriteLock \<longrightarrow> finished p)
     (procs (run [0, 0, 1, 0, 0, 0, 1, 1, 1, 1, 1] two_writers)) \<and>
   \<not> write_lock (shared (run [0, 0, 1, 0, 0, 0, 1, 1, 1, 1, 1] two_writers)) \<and>
   phase (procs (run [0] two_writers) ! 0) = Passed \<and>
   write_lock (shared (step 0 (run [0] two_writers))) \<and>
   phase (procs (run [0, 0, 1, 0, 0, 0, 1, 1, 1] two_writers) ! 1) = Leaving Raised \<and>
   \<not> write_lock (shared (step 1 (step 1 (run [0, 0, 1, 0, 0, 0, 1, 1, 1] two_writers))))"
proof -
  note ev = run_def step_def step_process_def two_writers_def execute_op_def idle_files_def
    delete_person_tables log_entries_def change_markers_def finished_def
  have a: "list_all (\<lambda>p. phase p = Waiting) (procs two_writers) \<and>
      list_ex (\<lambda>p. lock p = WriteLock) (procs two_writers) \<and>
      list_all (\<lambda>p. lock p = WriteLock \<longrightarrow> finished p)
        (procs (run [0, 0, 1, 0, 0, 0, 1, 1, 1, 1, 1] two_writers))"
    by (simp add: ev)
  have b: "0 < length (procs (run [0] two_writers)) \<and>
      lock (procs (run [0] two_writers) ! 0) = WriteLock \<and>
      phase (procs (run [0] two_writers) ! 0) = Passed"
    by (simp add: ev)
  have c: "1 < length (procs (run [0, 0, 1, 0, 0, 0, 1, 1, 1] two_writers)) \<and>
      lock (procs (run [0, 0, 1, 0, 0, 0, 1, 1, 1] two_writers) ! 1) = WriteLock \<and>
      phase (procs (run [0, 0, 1, 0, 0, 0, 1, 1, 1] two_writers) ! 1) = Leaving Raised"
    by (simp add: ev)
  from a b c
    write_lock_released [of 0 "run [0] two_writers" Raised "[0, 0, 1, 0, 0, 0, 1, 1, 1, 1, 1]"]
    write_lock_released [of 1 "run [0, 0, 1, 0, 0, 0, 1, 1, 1] two_writers" Raised "[]"]
    write_lock_released [of 0 two_writers Raised "[0, 0, 1, 0, 0, 0, 1, 1, 1, 1, 1]"]
  show ?thesis by blast
qed

text \<open>
  Claim C1, as the code has it. A read of the facade runs under the write lock: it never
  changes the read marker; it waits as long as the write marker exists, whoever created
  it; it goes on once the marker is absent, creates the write marker on entering the
  body, and leaves it absent after \<open>finally\<close>.
\<close>

theorem query_takes_write_lock:
  assumes "i < length (procs s)" and "procs s ! i = (query_op fails)\<lparr>phase := ph\<rparr>"
  shows "read_lock (shared (step i s)) = read_lock (shared s) \<and>
         (ph = Waiting \<and> write_lock (shared s) \<longrightarrow> step i s = s) \<and>
         (ph = Waiting \<and> \<not> write_lock (shared s) \<longrightarrow>
            phase (procs (step i s) ! i) = Passed \<and> shared (step i s) = shared s) \<and>
         (ph = Passed \<longrightarrow>
            write_lock (shared (step i s)) \<and> phase (procs (step i s) ! i) = Held) \<and>
         (ph = Held \<longrightarrow>
            write_lock (shared (step i s)) = write_lock (shared s) \<and>
            phase (procs (step i s) ! i) = Leaving (if fails then Raised else Returned)) \<and>
         (ph = Leaving out \<longrightarrow> \<not> write_lock (shared (step i (step i s))))"
  using assms
  by (cases ph) (auto simp: step_def step_process_def query_op_def list_update_same_conv)

theorem query_takes_write_lock_witness:
  "read_lock (shared (step 1 (run [0, 0] two_readers))) = read_lock (shared (run [0, 0] two_readers)) \<and>
   write_lock (shared (run [0, 0] two_readers)) \<and>
   step 1 (run [0, 0] two_readers) = run [0, 0] two_readers \<and>
   write_lock (shared (step 0 (run [0] two_readers))) \<and>
   \<not> write_lock (shared (step 0 (step 0 (run [0, 0, 0] two_readers))))"
proof -
  have a: "1 < length (procs (run [0, 0] two_readers))"
    "procs (run [0, 0] two_readers) ! 1 = (query_op False)\<lparr>phase := Waiting\<rparr>"
    "write_lock (shared (run [0, 0] two_readers))"
    by (simp_all add: run_def step_def step_process_def two_readers_def query_op_def idle_files_def)
  have b: "0 < length (procs (run [0] two_readers))"
    "procs (run [0] two_readers) ! 0 = (query_op False)\<lparr>phase := Passed\<rparr>"
    by (simp_all add: run_def step_def step_process_def two_readers_def query_op_def idle_files_def)
  have c: "0 < length (procs (run [0, 0, 0] two_readers))"
    "procs (run [0, 0, 0] two_readers) ! 0 = (query_op False)\<lparr>phase := Leaving Returned\<rparr>"
    by (simp_all add: run_def step_def step_process_def two_readers_def query_op_def idle_files_def)
  from query_takes_write_lock [OF a(1) a(2)] query_takes_write_lock [OF b(1) b(2)]
    query_takes_write_lock [OF c(1) c(2), of Returned] a(3)
  show ?thesis by simp
qed

text \<open>
  So a read can be blocked by another read: of two reads and no write, the first creates
  the write marker and no read marker, and the second stays in the waiting loop.
\<close>

theorem query_takes_write_lock_counterexample:
  "phase (procs (run [0, 0] two_readers) ! 0) = Held \<and>
   write_lock (shared (run [0, 0] two_readers)) \<and>
   read_lock (shared (run [0, 0] two_readers)) = None \<and>
   phase (procs (run [0, 0, 1, 1, 1] two_readers) ! 1) = Waiting"
  by (simp add: run_def step_def step_process_def two_readers_def query_op_def idle_files_def)

text \<open>
  The marker does not make two reads exclude each other: looking for the marker and
  creating it are two steps, and when both reads look before either creates, both enter
  the body.
\<close>

lemma readers_can_overlap:
  "phase (procs (run [0, 1, 0, 1] two_readers) ! 0) = Held \<and>
   phase (procs (run [0, 1, 0, 1] two_readers) ! 1) = Held"
  by (simp add: run_def step_def step_process_def two_readers_def query_op_def idle_files_def)

end
